theory Spec2Isabelle
  imports Complex_Main "HOL-Library.AList"
begin

text \<open>
  The feature workflow of the dashboard: the builder, Manage tab and formula builder of
  \<^verbatim>\<open>FeatureWorkflowDialog.tsx\<close> and the analysis dialog of
  \<^verbatim>\<open>FeatureAnalysisDialog.tsx\<close>, as functions on the dialogs' state, followed by the
  pipeline executor, the registry, group aggregation and pruning as the specification
  describes them, and by the properties proved of each.
\<close>

section \<open>JavaScript values held in the dialogs' state\<close>

text \<open>
  The dialogs type their data as \<^verbatim>\<open>any\<close>. A value is one of JavaScript's JSON-like
  values. Numbers are the integers and \<^verbatim>\<open>NaN\<close> (the only numbers a handler writes
  are the loop counter \<^verbatim>\<open>periods: i\<close> and results of \<^verbatim>\<open>parseInt\<close>; every input
  field yields a string). An object is the list of its own properties in property order,
  every key once.
\<close>

datatype jsval =
    JUndefined
  | JNull
  | JBool bool
  | JNum int
  | JNaN
  | JStr string
  | JArr "jsval list"
  | JObj "(string \<times> jsval) list"

type_synonym jsobj = "(string \<times> jsval) list"

text \<open>An object holds every key once.\<close>

definition wf_obj :: "jsobj \<Rightarrow> bool" where
  "wf_obj obj = distinct (map fst obj)"

text \<open>Property read \<^verbatim>\<open>o.k\<close>: a missing property reads \<^verbatim>\<open>undefined\<close>.\<close>

definition obj_get :: "jsobj \<Rightarrow> string \<Rightarrow> jsval" where
  "obj_get obj k = (case map_of obj k of None \<Rightarrow> JUndefined | Some v \<Rightarrow> v)"

text \<open>
  Object spread \<^verbatim>\<open>{...base, ...ext}\<close>: the properties of \<^verbatim>\<open>ext\<close> are written one
  by one; a key already there keeps its place and takes the new value, a new key goes last.
\<close>

definition obj_spread :: "jsobj \<Rightarrow> jsobj \<Rightarrow> jsobj" where
  "obj_spread base ext = fold (\<lambda>(k, v). AList.update k v) ext base"

text \<open>Rest destructuring \<^verbatim>\<open>const { k1, k2, ...rest } = t\<close>.\<close>

definition obj_rest :: "string list \<Rightarrow> jsobj \<Rightarrow> jsobj" where
  "obj_rest ks t = filter (\<lambda>(k, v). k \<notin> set ks) t"

text \<open>Truthiness, as \<^verbatim>\<open>||\<close>, \<^verbatim>\<open>&&\<close> and \<^verbatim>\<open>if\<close> read it.\<close>

fun truthy :: "jsval \<Rightarrow> bool" where
  "truthy JUndefined = False"
| "truthy JNull = False"
| "truthy (JBool b) = b"
| "truthy (JNum n) = (n \<noteq> 0)"
| "truthy JNaN = False"
| "truthy (JStr s) = (s \<noteq> [])"
| "truthy (JArr vs) = True"
| "truthy (JObj ps) = True"

text \<open>\<^verbatim>\<open>a || b\<close>\<close>

definition js_or :: "jsval \<Rightarrow> jsval \<Rightarrow> jsval" where
  "js_or a b = (if truthy a then a else b)"

text \<open>
  Strict equality \<^verbatim>\<open>===\<close>. Primitives compare by value. Arrays and objects compare by
  reference; this model holds values, not references, and no handler stores an array or an
  object where \<^verbatim>\<open>===\<close> is applied (the \<^verbatim>\<open>op\<close> of a step), so they compare unequal.
\<close>

fun is_primitive :: "jsval \<Rightarrow> bool" where
  "is_primitive (JArr vs) = False"
| "is_primitive (JObj ps) = False"
| "is_primitive v = True"

definition strict_equals :: "jsval \<Rightarrow> jsval \<Rightarrow> bool" where
  "strict_equals a b = (is_primitive a \<and> is_primitive b \<and> a \<noteq> JNaN \<and> a = b)"

subsection \<open>Number to string, string to number\<close>

definition digit_char :: "nat \<Rightarrow> char" where
  "digit_char d = ''0123456789abcdef'' ! d"

function string_of_nat :: "nat \<Rightarrow> string" where
  "string_of_nat n =
     (if n < 10 then [digit_char n] else string_of_nat (n div 10) @ [digit_char (n mod 10)])"
  by pat_completeness auto
termination
  by (relation "measure id") auto

declare string_of_nat.simps [simp del]

text \<open>\<^verbatim>\<open>String(n)\<close> for an integer below \<^verbatim>\<open>1e21\<close> in magnitude.\<close>

definition string_of_int :: "int \<Rightarrow> string" where
  "string_of_int i = (if i < 0 then CHR ''-'' # string_of_nat (nat (- i)) else string_of_nat (nat i))"

definition is_space :: "char \<Rightarrow> bool" where
  "is_space c = (c = CHR '' '' \<or> c = CHR 0x09 \<or> c = CHR 0x0A \<or> c = CHR 0x0B
                 \<or> c = CHR 0x0C \<or> c = CHR 0x0D)"

definition digit_val :: "char \<Rightarrow> nat option" where
  "digit_val c =
     (let n = (of_char c :: nat) in
      if 48 \<le> n \<and> n \<le> 57 then Some (n - 48)
      else if 97 \<le> n \<and> n \<le> 102 then Some (n - 87)
      else if 65 \<le> n \<and> n \<le> 70 then Some (n - 55)
      else None)"

text \<open>The longest prefix of digits of the radix, read as a number; the count of digits read.\<close>

fun read_digits :: "nat \<Rightarrow> string \<Rightarrow> nat \<Rightarrow> nat \<Rightarrow> nat \<times> nat" where
  "read_digits radix [] acc cnt = (acc, cnt)"
| "read_digits radix (c # cs) acc cnt =
     (case digit_val c of
        None \<Rightarrow> (acc, cnt)
      | Some d \<Rightarrow> if d < radix then read_digits radix cs (acc * radix + d) (Suc cnt)
                  else (acc, cnt))"

text \<open>
  \<^verbatim>\<open>parseInt(s)\<close> with no radix: leading white space is skipped, then an optional sign, then
  \<^verbatim>\<open>0x\<close> or \<^verbatim>\<open>0X\<close> selects radix 16; the digits that follow are read and the rest
  ignored. No digit gives \<^verbatim>\<open>NaN\<close>, here \<open>None\<close>. The white space skipped here is
  the ASCII one, where JavaScript also skips the other Unicode spaces, and the number read is
  the exact integer, where JavaScript rounds it to a double.
\<close>

definition parse_unsigned :: "string \<Rightarrow> nat option" where
  "parse_unsigned s =
     (case s of
        c0 # cx # rest \<Rightarrow>
          if c0 = CHR ''0'' \<and> (cx = CHR ''x'' \<or> cx = CHR ''X'')
          then (case read_digits 16 rest 0 0 of (v, cnt) \<Rightarrow> if cnt = 0 then None else Some v)
          else (case read_digits 10 s 0 0 of (v, cnt) \<Rightarrow> if cnt = 0 then None else Some v)
      | _ \<Rightarrow> (case read_digits 10 s 0 0 of (v, cnt) \<Rightarrow> if cnt = 0 then None else Some v))"

definition parseInt_str :: "string \<Rightarrow> int option" where
  "parseInt_str s =
     (case dropWhile is_space s of
        [] \<Rightarrow> None
      | c # cs \<Rightarrow>
          if c = CHR ''-'' then map_option (\<lambda>n. - int n) (parse_unsigned cs)
          else if c = CHR ''+'' then map_option int (parse_unsigned cs)
          else map_option int (parse_unsigned (c # cs)))"

text \<open>
  \<^verbatim>\<open>parseInt(v)\<close> converts its argument to a string first. The builder passes a string
  (an input's value, or the literal \<^verbatim>\<open>"1"\<close>); a number is printed and read back; of the
  other values only strings and numbers can yield digits.
\<close>

fun parseInt :: "jsval \<Rightarrow> int option" where
  "parseInt (JStr s) = parseInt_str s"
| "parseInt (JNum n) = parseInt_str (string_of_int n)"
| "parseInt v = None"

subsection \<open>JSON.stringify\<close>

definition hex_digit :: "nat \<Rightarrow> char" where
  "hex_digit d = digit_char d"

definition json_escape_char :: "char \<Rightarrow> string" where
  "json_escape_char c =
     (if c = CHR 0x22 then [CHR 0x5C, CHR 0x22]
      else if c = CHR 0x5C then [CHR 0x5C, CHR 0x5C]
      else if c = CHR 0x08 then [CHR 0x5C, CHR ''b'']
      else if c = CHR 0x0C then [CHR 0x5C, CHR ''f'']
      else if c = CHR 0x0A then [CHR 0x5C, CHR ''n'']
      else if c = CHR 0x0D then [CHR 0x5C, CHR ''r'']
      else if c = CHR 0x09 then [CHR 0x5C, CHR ''t'']
      else if (of_char c :: nat) < 32
        then [CHR 0x5C, CHR ''u'', CHR ''0'', CHR ''0'',
              hex_digit ((of_char c :: nat) div 16), hex_digit ((of_char c :: nat) mod 16)]
      else [c])"

definition json_quote :: "string \<Rightarrow> string" where
  "json_quote s = CHR 0x22 # concat (map json_escape_char s) @ [CHR 0x22]"

fun join :: "string \<Rightarrow> string list \<Rightarrow> string" where
  "join sep [] = []"
| "join sep [x] = x"
| "join sep (x # y # ys) = x @ sep @ join sep (y # ys)"

text \<open>
  \<^verbatim>\<open>JSON.stringify(v)\<close>: \<open>None\<close> is the result \<^verbatim>\<open>undefined\<close>. An array element that
  does not serialise is written \<^verbatim>\<open>null\<close>; an object property that does not serialise
  is left out.
\<close>

fun stringify :: "jsval \<Rightarrow> string option"
  and stringify_elems :: "jsval list \<Rightarrow> string list"
  and stringify_props :: "(string \<times> jsval) list \<Rightarrow> string list"
where
  "stringify JUndefined = None"
| "stringify JNull = Some ''null''"
| "stringify (JBool b) = Some (if b then ''true'' else ''false'')"
| "stringify (JNum n) = Some (string_of_int n)"
| "stringify JNaN = Some ''null''"
| "stringify (JStr s) = Some (json_quote s)"
| "stringify (JArr vs) = Some (''['' @ join '','' (stringify_elems vs) @ '']'')"
| "stringify (JObj ps) = Some (''{'' @ join '','' (stringify_props ps) @ ''}'')"
| "stringify_elems [] = []"
| "stringify_elems (v # vs) =
     (case stringify v of None \<Rightarrow> ''null'' | Some s \<Rightarrow> s) # stringify_elems vs"
| "stringify_props [] = []"
| "stringify_props ((k, v) # ps) =
     (case stringify v of
        None \<Rightarrow> stringify_props ps
      | Some s \<Rightarrow> (json_quote k @ '':'' @ s) # stringify_props ps)"

text \<open>The keys that \<^verbatim>\<open>JSON.stringify\<close> writes for an object: those whose value serialises.\<close>

definition serialized_keys :: "jsobj \<Rightarrow> string list" where
  "serialized_keys obj = map fst (filter (\<lambda>(k, v). stringify v \<noteq> None) obj)"

section \<open>Pipeline steps and the flat transformation list\<close>

text \<open>
  A pipeline step of the builder: \<^verbatim>\<open>{ id, op, cols, args }\<close>. The field \<^verbatim>\<open>id\<close> is named
  \<open>sid\<close> here.
\<close>

record step =
  sid :: string
  op :: jsval
  cols :: "jsval list"
  args :: jsobj

text \<open>What a step is apart from its random id.\<close>

definition step_content :: "step \<Rightarrow> jsval \<times> jsval list \<times> jsobj" where
  "step_content s = (op s, cols s, args s)"

text \<open>The record \<^verbatim>\<open>{ op: step.op, col: col, ...step.args }\<close>.\<close>

definition flat_record :: "step \<Rightarrow> jsval \<Rightarrow> jsobj" where
  "flat_record s c = obj_spread [(''op'', op s), (''col'', c)] (args s)"

text \<open>
  \<^verbatim>\<open>pipelineSteps.flatMap(step => step.cols.map(col => ({ op, col, ...args })))\<close>, as
  \<^verbatim>\<open>handleBuilderSubmit\<close> and \<^verbatim>\<open>handleSaveActiveFeatures\<close> both compute it.
\<close>

definition flatTransformations :: "step list \<Rightarrow> jsobj list" where
  "flatTransformations steps = concat (map (\<lambda>s. map (flat_record s) (cols s)) steps)"

text \<open>
  \<^verbatim>\<open>groupTransformations\<close>. The loop state is the list \<^verbatim>\<open>grouped\<close>, the open group
  \<^verbatim>\<open>currentGroup\<close> (\<open>None\<close> for \<^verbatim>\<open>null\<close>) and the count of ids drawn; \<open>ids n\<close> is the
  \<open>n\<close>-th string \<^verbatim>\<open>Math.random().toString(36).substr(2, 9)\<close> yields.
\<close>

definition same_group :: "step \<Rightarrow> jsval \<Rightarrow> jsobj \<Rightarrow> bool" where
  "same_group g op' args' =
     (strict_equals (op g) op' \<and> stringify (JObj (args g)) = stringify (JObj args'))"

definition group_body :: "(nat \<Rightarrow> string) \<Rightarrow> step list \<times> step option \<times> nat \<Rightarrow> jsobj
    \<Rightarrow> step list \<times> step option \<times> nat" where
  "group_body ids st t =
     (case st of (grouped, currentGroup, n) \<Rightarrow>
       (let op' = obj_get t ''op'';
            col = obj_get t ''col'';
            args' = obj_rest [''op'', ''col''] t;
            isMatch = (case currentGroup of None \<Rightarrow> False | Some g \<Rightarrow> same_group g op' args')
        in if isMatch
           then (grouped, map_option (\<lambda>g. g\<lparr>cols := cols g @ [col]\<rparr>) currentGroup, n)
           else ((case currentGroup of None \<Rightarrow> grouped | Some g \<Rightarrow> grouped @ [g]),
                 Some \<lparr>sid = ids n, op = op', cols = [col], args = args'\<rparr>,
                 Suc n)))"

fun group_loop :: "(nat \<Rightarrow> string) \<Rightarrow> step list \<times> step option \<times> nat \<Rightarrow> jsobj list
    \<Rightarrow> step list \<times> step option \<times> nat" where
  "group_loop ids st [] = st"
| "group_loop ids st (t # ts) = group_loop ids (group_body ids st t) ts"

definition group_finish :: "step list \<times> step option \<times> nat \<Rightarrow> step list" where
  "group_finish st =
     (case st of (grouped, currentGroup, n) \<Rightarrow>
        (case currentGroup of None \<Rightarrow> grouped | Some g \<Rightarrow> grouped @ [g]))"

text \<open>The argument is \<open>None\<close> when \<^verbatim>\<open>flat\<close> is \<^verbatim>\<open>null\<close> or \<^verbatim>\<open>undefined\<close>.\<close>

definition groupTransformations :: "(nat \<Rightarrow> string) \<Rightarrow> jsobj list option \<Rightarrow> step list" where
  "groupTransformations ids flat =
     (case flat of
        None \<Rightarrow> []
      | Some ts \<Rightarrow> group_finish (group_loop ids ([], None, 0) ts))"

section \<open>The workflow dialog\<close>

text \<open>
  The state of \<^verbatim>\<open>FeatureWorkflowDialog\<close> that the handlers below read or write.
  \<^verbatim>\<open>newOp\<close> is the pair of \<open>newOp_op\<close> and \<open>newOp_args\<close>; \<open>featuresInitialized\<close> is
  \<^verbatim>\<open>featuresInitializedRef.current\<close>; \<open>currentFeatureSet\<close> is \<open>None\<close> for \<^verbatim>\<open>null\<close>.
\<close>

record wstate =
  columns :: "string list"
  pipelineSteps :: "step list"
  newOp_op :: string
  newOp_args :: jsobj
  selectedCols :: "string list"
  activeFeatureSelection :: "string list"
  activeTargetCol :: string
  leftSelection :: "string list"
  rightSelection :: "string list"
  currentFeatureSet :: "jsobj option"
  selectedVersionId :: string
  builderVersionTag :: string
  featuresInitialized :: bool

text \<open>\<^verbatim>\<open>handleArgChange(key, value)\<close>\<close>

definition handleArgChange :: "string \<Rightarrow> jsval \<Rightarrow> wstate \<Rightarrow> wstate" where
  "handleArgChange key v st =
     st\<lparr>newOp_args := AList.update key v (obj_spread [] (newOp_args st))\<rparr>"

subsection \<open>addStep\<close>

text \<open>
  The loop \<^verbatim>\<open>for (let i = 1; i <= maxLag; i++) newSteps.push({...})\<close>. \<open>ids k\<close> is the
  \<open>k\<close>-th id drawn by this call of \<^verbatim>\<open>addStep\<close>.
\<close>

definition lag_step :: "(nat \<Rightarrow> string) \<Rightarrow> wstate \<Rightarrow> int \<Rightarrow> step" where
  "lag_step ids st i =
     \<lparr>sid = ids (nat (i - 1)),
      op = JStr ''lag'',
      cols = map JStr (selectedCols st),
      args = [(''group_col'', obj_get (newOp_args st) ''group_col''),
              (''sort_col'', obj_get (newOp_args st) ''sort_col''),
              (''periods'', JNum i)]\<rparr>"

function lag_loop :: "(nat \<Rightarrow> string) \<Rightarrow> wstate \<Rightarrow> int \<Rightarrow> int \<Rightarrow> step list \<Rightarrow> step list" where
  "lag_loop ids st maxLag i newSteps =
     (if i \<le> maxLag then lag_loop ids st maxLag (i + 1) (newSteps @ [lag_step ids st i])
      else newSteps)"
  by pat_completeness auto
termination
  by (relation "measure (\<lambda>(ids, st, maxLag, i, newSteps). nat (maxLag + 1 - i))") auto

declare lag_loop.simps [simp del]

text \<open>
  \<^verbatim>\<open>x && x.length > 0\<close> and the array spread \<^verbatim>\<open>[...x]\<close>, for the values
  \<^verbatim>\<open>group_filters\<close> takes: it is undefined or an array of column names (its only writers
  are the filter select's handlers); a string is iterated by characters.
\<close>

fun nonempty_list :: "jsval \<Rightarrow> bool" where
  "nonempty_list (JArr vs) = (vs \<noteq> [])"
| "nonempty_list (JStr s) = (s \<noteq> [])"
| "nonempty_list v = False"

fun spread_elems :: "jsval \<Rightarrow> jsval list" where
  "spread_elems (JArr vs) = vs"
| "spread_elems (JStr s) = map (\<lambda>c. JStr [c]) s"
| "spread_elems v = []"

text \<open>
  The filter select of the group aggregation form: \<^verbatim>\<open>onChange\<close> adds the chosen column to
  \<^verbatim>\<open>group_filters\<close> unless it is there, the cross of a chosen column removes it.
  \<^verbatim>\<open>group_filters\<close> is undefined or an array: these two handlers are its only writers.
\<close>

definition addGroupFilter :: "string \<Rightarrow> wstate \<Rightarrow> wstate" where
  "addGroupFilter v st =
     (if v = [] then st
      else
        (let current = spread_elems (js_or (obj_get (newOp_args st) ''group_filters'') (JArr []))
         in if JStr v \<in> set current then st
            else handleArgChange ''group_filters'' (JArr (current @ [JStr v])) st))"

definition removeGroupFilter :: "string \<Rightarrow> wstate \<Rightarrow> wstate" where
  "removeGroupFilter f st =
     (let current = spread_elems (js_or (obj_get (newOp_args st) ''group_filters'') (JArr []))
      in handleArgChange ''group_filters'' (JArr (filter (\<lambda>c. c \<noteq> JStr f) current)) st)"

definition addStep :: "(nat \<Rightarrow> string) \<Rightarrow> wstate \<Rightarrow> wstate" where
  "addStep ids st =
     (if selectedCols st = [] then st
      else if newOp_op st = ''lag'' then
        (let newSteps =
               (case parseInt (js_or (obj_get (newOp_args st) ''max_lag'') (JStr ''1'')) of
                  None \<Rightarrow> []
                | Some maxLag \<Rightarrow> lag_loop ids st maxLag 1 [])
         in st\<lparr>pipelineSteps := pipelineSteps st @ newSteps, selectedCols := []\<rparr>)
      else if newOp_op st = ''groupby_agg'' then
        (let group_filters = obj_get (newOp_args st) ''group_filters'';
             finalGroupCol =
               (if truthy group_filters \<and> nonempty_list group_filters
                then JArr (obj_get (newOp_args st) ''group_col'' # spread_elems group_filters)
                else obj_get (newOp_args st) ''group_col'')
         in st\<lparr>pipelineSteps := pipelineSteps st @
                  [\<lparr>sid = ids 0,
                    op = JStr (newOp_op st),
                    cols = map JStr (selectedCols st),
                    args = AList.update ''group_filters'' JUndefined
                             (AList.update ''group_col'' finalGroupCol
                                (obj_spread [] (newOp_args st)))\<rparr>],
                selectedCols := []\<rparr>)
      else
        st\<lparr>pipelineSteps := pipelineSteps st @
                 [\<lparr>sid = ids 0,
                   op = JStr (newOp_op st),
                   cols = map JStr (selectedCols st),
                   args = obj_spread [] (newOp_args st)\<rparr>],
            selectedCols := []\<rparr>)"

text \<open>\<^verbatim>\<open>removeStep(id)\<close>\<close>

definition removeStep :: "string \<Rightarrow> wstate \<Rightarrow> wstate" where
  "removeStep i st = st\<lparr>pipelineSteps := filter (\<lambda>s. sid s \<noteq> i) (pipelineSteps st)\<rparr>"

text \<open>The op select's \<^verbatim>\<open>onChange\<close>: \<^verbatim>\<open>setNewOp({ ...newOp, op: e.target.value })\<close>.\<close>

definition selectOp :: "string \<Rightarrow> wstate \<Rightarrow> wstate" where
  "selectOp v st = st\<lparr>newOp_op := v\<rparr>"

text \<open>
  \<^verbatim>\<open>moveBuilderRight\<close>, on \<^verbatim>\<open>selectedCols\<close>. The columns marked in the builder's left
  list, \<^verbatim>\<open>builderLeftSelection\<close>, are the argument.
\<close>

definition moveBuilderRight :: "string list \<Rightarrow> wstate \<Rightarrow> wstate" where
  "moveBuilderRight builderLeftSelection st =
     st\<lparr>selectedCols := selectedCols st @ builderLeftSelection\<rparr>"

text \<open>
  The \<^verbatim>\<open>onClick\<close> of Add Formula. It returns when the expression or the name of the new
  column is empty; otherwise it appends a step with the dummy column \<^verbatim>\<open>(Formula)\<close> and
  resets the two arguments.
\<close>

definition addFormula :: "(nat \<Rightarrow> string) \<Rightarrow> wstate \<Rightarrow> wstate" where
  "addFormula ids st =
     (if \<not> truthy (obj_get (newOp_args st) ''expression'')
         \<or> \<not> truthy (obj_get (newOp_args st) ''new_col'')
      then st
      else
        st\<lparr>pipelineSteps := pipelineSteps st @
                 [\<lparr>sid = ids 0,
                   op = JStr ''custom_formula'',
                   cols = [JStr ''(Formula)''],
                   args = [(''expression'', obj_get (newOp_args st) ''expression''),
                           (''new_col'', obj_get (newOp_args st) ''new_col'')]\<rparr>],
            newOp_args := [(''expression'', JStr []), (''new_col'', JStr [])]\<rparr>)"

subsection \<open>The Manage tab: the transfer list of active features and the target\<close>

definition moveRight :: "wstate \<Rightarrow> wstate" where
  "moveRight st =
     st\<lparr>activeFeatureSelection := activeFeatureSelection st @ leftSelection st,
        leftSelection := []\<rparr>"

definition moveLeft :: "wstate \<Rightarrow> wstate" where
  "moveLeft st =
     st\<lparr>activeFeatureSelection :=
          filter (\<lambda>f. f \<notin> set (rightSelection st)) (activeFeatureSelection st),
        rightSelection := []\<rparr>"

definition moveAllRight :: "wstate \<Rightarrow> wstate" where
  "moveAllRight st =
     st\<lparr>activeFeatureSelection := filter (\<lambda>c. c \<noteq> activeTargetCol st) (columns st),
        leftSelection := []\<rparr>"

definition moveAllLeft :: "wstate \<Rightarrow> wstate" where
  "moveAllLeft st = st\<lparr>activeFeatureSelection := [], rightSelection := []\<rparr>"

definition toggle :: "string \<Rightarrow> string list \<Rightarrow> string list" where
  "toggle item prev = (if item \<in> set prev then filter (\<lambda>i. i \<noteq> item) prev else prev @ [item])"

datatype listType = Left | Right

definition toggleSelection :: "string \<Rightarrow> listType \<Rightarrow> wstate \<Rightarrow> wstate" where
  "toggleSelection item lt st =
     (case lt of
        Left \<Rightarrow> st\<lparr>leftSelection := toggle item (leftSelection st)\<rparr>
      | Right \<Rightarrow> st\<lparr>rightSelection := toggle item (rightSelection st)\<rparr>)"

text \<open>The list \<^verbatim>\<open>leftList\<close> the Manage tab renders: the items a click can toggle on the left.\<close>

definition leftList :: "wstate \<Rightarrow> string list" where
  "leftList st =
     filter (\<lambda>c. c \<notin> set (activeFeatureSelection st) \<and> c \<noteq> activeTargetCol st) (columns st)"

text \<open>The target select's \<^verbatim>\<open>onChange\<close>: \<^verbatim>\<open>setActiveTargetCol(e.target.value)\<close>.\<close>

definition setActiveTargetCol :: "string \<Rightarrow> wstate \<Rightarrow> wstate" where
  "setActiveTargetCol c st = st\<lparr>activeTargetCol := c\<rparr>"

subsection \<open>Requests to the registry\<close>

text \<open>
  \<^verbatim>\<open>api.put(`/features/sets/${id}`, body)\<close> and \<^verbatim>\<open>api.post('/features/sets', body)\<close>.
  A handler yields the request it sends, \<open>None\<close> when it returns before sending one.
\<close>

datatype request = Put jsval jsobj | Post jsobj

fun request_body :: "request \<Rightarrow> jsobj" where
  "request_body (Put i b) = b"
| "request_body (Post b) = b"

definition num_or_nan :: "int option \<Rightarrow> jsval" where
  "num_or_nan r = (case r of None \<Rightarrow> JNaN | Some n \<Rightarrow> JNum n)"

definition str_or :: "string \<Rightarrow> jsval \<Rightarrow> jsval" where
  "str_or s d = (if s \<noteq> [] then JStr s else d)"

definition handleBuilderSubmit :: "wstate \<Rightarrow> request option" where
  "handleBuilderSubmit st =
     (if selectedVersionId st = [] then None
      else
        (let flat = flatTransformations (pipelineSteps st) in
         case currentFeatureSet st of
           Some fs \<Rightarrow>
             Some (Put (obj_get fs ''id'')
               [(''name'', obj_get fs ''name''),
                (''dataset_version_id'', num_or_nan (parseInt_str (selectedVersionId st))),
                (''version'', str_or (builderVersionTag st) JUndefined),
                (''transformations'', JArr (map JObj flat))])
         | None \<Rightarrow>
             Some (Post
               [(''dataset_version_id'', num_or_nan (parseInt_str (selectedVersionId st))),
                (''version'', str_or (builderVersionTag st) JUndefined),
                (''transformations'', JArr (map JObj flat))])))"

definition handleSaveActiveFeatures :: "wstate \<Rightarrow> request option" where
  "handleSaveActiveFeatures st =
     (case currentFeatureSet st of
        None \<Rightarrow> None
      | Some fs \<Rightarrow>
          (let flat = flatTransformations (pipelineSteps st) in
           Some (Put (obj_get fs ''id'')
             [(''name'', obj_get fs ''name''),
              (''dataset_version_id'', obj_get fs ''dataset_version_id''),
              (''version'', obj_get fs ''version''),
              (''transformations'', JArr (map JObj flat)),
              (''active_features'', JArr (map JStr (activeFeatureSelection st))),
              (''target_column'', str_or (activeTargetCol st) JNull)])))"

subsection \<open>The Manage tab: Add Global Filter\<close>

definition first_column :: "string list \<Rightarrow> jsval" where
  "first_column cs = (case cs of [] \<Rightarrow> JUndefined | c # rest \<Rightarrow> JStr c)"

definition new_condition :: "wstate \<Rightarrow> jsval" where
  "new_condition st =
     JObj [(''col'', first_column (columns st)), (''op'', JStr ''eq''), (''val'', JStr [])]"

text \<open>\<^verbatim>\<open>pipelineSteps.findIndex(s => s.op === "filter")\<close>; \<open>None\<close> is \<^verbatim>\<open>-1\<close>.\<close>

fun findIndex :: "('a \<Rightarrow> bool) \<Rightarrow> 'a list \<Rightarrow> nat option" where
  "findIndex P [] = None"
| "findIndex P (x # xs) = (if P x then Some 0 else map_option Suc (findIndex P xs))"

definition is_filter :: "step \<Rightarrow> bool" where
  "is_filter s = strict_equals (op s) (JStr ''filter'')"

text \<open>
  The \<^verbatim>\<open>onClick\<close> of the button. In the first branch \<^verbatim>\<open>[...current, c]\<close> spreads the
  step's \<^verbatim>\<open>conditions\<close>, an array whenever this dialog wrote it.
\<close>

definition addGlobalFilter :: "(nat \<Rightarrow> string) \<Rightarrow> wstate \<Rightarrow> wstate" where
  "addGlobalFilter ids st =
     (case findIndex is_filter (pipelineSteps st) of
        Some existingFilterIdx \<Rightarrow>
          (let step = pipelineSteps st ! existingFilterIdx;
               current = js_or (obj_get (args step) ''conditions'') (JArr []);
               newConditions = JArr (spread_elems current @ [new_condition st])
           in st\<lparr>pipelineSteps := (pipelineSteps st)
                  [existingFilterIdx :=
                     step\<lparr>args := AList.update ''conditions'' newConditions
                                     (obj_spread [] (args step))\<rparr>]\<rparr>)
      | None \<Rightarrow>
          (let newStep = \<lparr>sid = ids 0, op = JStr ''filter'', cols = [],
                          args = [(''conditions'', JArr [new_condition st])]\<rparr>
           in st\<lparr>pipelineSteps := newStep # pipelineSteps st\<rparr>))"

text \<open>
  The rows of Row Filtering, one for each condition of the first filter step:
  \<^verbatim>\<open>pipelineSteps.find(s => s.op === "filter")?.args?.conditions || []\<close>, rendered by
  \<^verbatim>\<open>conditions.map\<close> when it has elements, which only an array has. The handlers of
  row \<open>idx\<close> below run only when that row is there.
\<close>

definition filter_rows :: "wstate \<Rightarrow> jsval list" where
  "filter_rows st =
     (case findIndex is_filter (pipelineSteps st) of
        None \<Rightarrow> []
      | Some fIdx \<Rightarrow>
          (case js_or (obj_get (args (pipelineSteps st ! fIdx)) ''conditions'') (JArr []) of
             JArr conds \<Rightarrow> conds
           | _ \<Rightarrow> []))"

text \<open>
  The object spread \<^verbatim>\<open>{ ...x }\<close> of a value: the own properties of an object, the
  elements of an array and the characters of a string under their indices, nothing otherwise.
\<close>

fun spread_props :: "jsval \<Rightarrow> jsobj" where
  "spread_props (JObj ps) = ps"
| "spread_props (JArr vs) = zip (map string_of_nat [0..<length vs]) vs"
| "spread_props (JStr s) = zip (map string_of_nat [0..<length s]) (map (\<lambda>c. JStr [c]) s)"
| "spread_props v = []"

text \<open>
  The \<^verbatim>\<open>onChange\<close> of the three fields of row \<open>idx\<close>, which differ in the key they
  write (\<^verbatim>\<open>col\<close>, \<^verbatim>\<open>op\<close>, \<^verbatim>\<open>val\<close>):
  \<^verbatim>\<open>updatedConds[idx] = { ...updatedConds[idx], [key]: e.target.value }\<close>, then
  \<^verbatim>\<open>newSteps[fIdx].args.conditions = updatedConds\<close>.
\<close>

definition setCondition :: "nat \<Rightarrow> string \<Rightarrow> string \<Rightarrow> wstate \<Rightarrow> wstate" where
  "setCondition idx key v st =
     (if idx < length (filter_rows st) then
        (case findIndex is_filter (pipelineSteps st) of
           None \<Rightarrow> st
         | Some fIdx \<Rightarrow>
             (let step = pipelineSteps st ! fIdx;
                  conds = spread_elems (obj_get (args step) ''conditions'');
                  updatedConds =
                    conds[idx := JObj (AList.update key (JStr v)
                                         (obj_spread [] (spread_props (conds ! idx))))]
              in st\<lparr>pipelineSteps := (pipelineSteps st)
                     [fIdx := step\<lparr>args := AList.update ''conditions'' (JArr updatedConds)
                                              (args step)\<rparr>]\<rparr>))
      else st)"

text \<open>
  The \<^verbatim>\<open>onClick\<close> of the bin of row \<open>idx\<close>: the condition is taken out, and the step
  with it (\<^verbatim>\<open>newSteps.splice(fIdx, 1)\<close>) when no condition is left.
\<close>

definition removeCondition :: "nat \<Rightarrow> wstate \<Rightarrow> wstate" where
  "removeCondition idx st =
     (if idx < length (filter_rows st) then
        (case findIndex is_filter (pipelineSteps st) of
           None \<Rightarrow> st
         | Some fIdx \<Rightarrow>
             (let step = pipelineSteps st ! fIdx;
                  conds = spread_elems (obj_get (args step) ''conditions'');
                  updatedConds = take idx conds @ drop (Suc idx) conds;
                  newSteps = (pipelineSteps st)
                     [fIdx := step\<lparr>args := AList.update ''conditions'' (JArr updatedConds)
                                              (args step)\<rparr>]
              in st\<lparr>pipelineSteps :=
                      (if updatedConds = [] then take fIdx newSteps @ drop (Suc fIdx) newSteps
                       else newSteps)\<rparr>))
      else st)"

subsection \<open>Opening the dialog on a feature set\<close>

text \<open>
  The registry returns a feature set as an object: \<^verbatim>\<open>transformations\<close> a list of records,
  \<^verbatim>\<open>active_features\<close> absent, \<^verbatim>\<open>null\<close> or a list of column names, \<^verbatim>\<open>target_column\<close> and
  \<^verbatim>\<open>version\<close> a string or \<^verbatim>\<open>null\<close>. The projections below read such a value into the
  type the dialog's state declares for it.
\<close>

fun as_objects :: "jsval \<Rightarrow> jsobj list" where
  "as_objects (JArr vs) = concat (map (\<lambda>v. case v of JObj ps \<Rightarrow> [ps] | _ \<Rightarrow> []) vs)"
| "as_objects v = []"

fun as_strings :: "jsval \<Rightarrow> string list" where
  "as_strings (JArr vs) = concat (map (\<lambda>v. case v of JStr s \<Rightarrow> [s] | _ \<Rightarrow> []) vs)"
| "as_strings v = []"

fun as_string :: "jsval \<Rightarrow> string" where
  "as_string (JStr s) = s"
| "as_string (JNum n) = string_of_int n"
| "as_string v = []"

text \<open>
  The effect that runs when the dialog opens with \<^verbatim>\<open>editFeatureSet\<close> set (edit mode), on
  the fields of \<open>wstate\<close>.
\<close>

definition openEdit :: "(nat \<Rightarrow> string) \<Rightarrow> jsobj \<Rightarrow> wstate \<Rightarrow> wstate" where
  "openEdit ids editFeatureSet st =
     st\<lparr>currentFeatureSet := Some editFeatureSet,
        selectedVersionId := as_string (obj_get editFeatureSet ''dataset_version_id''),
        pipelineSteps :=
          groupTransformations ids
            (Some (as_objects (js_or (obj_get editFeatureSet ''transformations'') (JArr [])))),
        builderVersionTag := as_string (js_or (obj_get editFeatureSet ''version'') (JStr [])),
        activeFeatureSelection :=
          (if truthy (obj_get editFeatureSet ''active_features'')
           then as_strings (obj_get editFeatureSet ''active_features'') else []),
        featuresInitialized := truthy (obj_get editFeatureSet ''active_features''),
        activeTargetCol := as_string (js_or (obj_get editFeatureSet ''target_column'') (JStr []))\<rparr>"

text \<open>
  The same effect when the dialog opens with no \<^verbatim>\<open>editFeatureSet\<close> (create mode): the
  reset.
\<close>

definition openCreate :: "wstate \<Rightarrow> wstate" where
  "openCreate st =
     st\<lparr>currentFeatureSet := None,
        pipelineSteps := [],
        newOp_op := ''log'', newOp_args := [],
        selectedCols := [],
        builderVersionTag := [],
        selectedVersionId := [],
        columns := [],
        activeFeatureSelection := [],
        activeTargetCol := [],
        featuresInitialized := False\<rparr>"

text \<open>
  \<^verbatim>\<open>loadColumns\<close> when the preview of the feature set has answered with at least one row,
  \<open>ks\<close> being the keys of its first row (\<^verbatim>\<open>cols\<close> in the source).
\<close>

definition loadColumns :: "string list \<Rightarrow> wstate \<Rightarrow> wstate" where
  "loadColumns ks st =
     (if \<not> featuresInitialized st
      then st\<lparr>columns := ks, activeFeatureSelection := ks, featuresInitialized := True\<rparr>
      else st\<lparr>columns := ks\<rparr>)"

section \<open>The formula builder\<close>

text \<open>The token \<^verbatim>\<open>`\`${col}\``\<close>: the column name between two backticks.\<close>

definition backtick :: char where
  "backtick = CHR 0x60"

definition drag_token :: "string \<Rightarrow> string" where
  "drag_token col = [backtick] @ col @ [backtick]"

text \<open>The drag's \<^verbatim>\<open>dataTransfer\<close>: the data stored under each format.\<close>

type_synonym dataTransfer = "(string \<times> string) list"

definition setData :: "string \<Rightarrow> string \<Rightarrow> dataTransfer \<Rightarrow> dataTransfer" where
  "setData fmt d dt = AList.update fmt d dt"

definition getData :: "string \<Rightarrow> dataTransfer \<Rightarrow> string" where
  "getData fmt dt = (case map_of dt fmt of None \<Rightarrow> [] | Some d \<Rightarrow> d)"

definition handleDragStart :: "string \<Rightarrow> dataTransfer \<Rightarrow> dataTransfer" where
  "handleDragStart col dt = setData ''text/plain'' (drag_token col) dt"

text \<open>\<^verbatim>\<open>s.substring(a, b)\<close> and \<^verbatim>\<open>s.substring(a)\<close>\<close>

definition substring :: "string \<Rightarrow> nat \<Rightarrow> nat \<Rightarrow> string" where
  "substring s a b =
     (let a' = min a (length s); b' = min b (length s)
      in take (max a' b' - min a' b') (drop (min a' b') s))"

definition substring_from :: "string \<Rightarrow> nat \<Rightarrow> string" where
  "substring_from s a = drop (min a (length s)) s"

record textarea =
  selectionStart :: nat
  selectionEnd :: nat

text \<open>
  \<^verbatim>\<open>insertText(text)\<close>: the value passed to \<^verbatim>\<open>onExpressionChange\<close>, \<open>None\<close> when the
  text area is not mounted and nothing is passed.
\<close>

definition insertText :: "textarea option \<Rightarrow> string \<Rightarrow> string \<Rightarrow> string option" where
  "insertText textAreaRef expression text =
     (case textAreaRef of
        None \<Rightarrow> None
      | Some ta \<Rightarrow>
          Some (substring expression 0 (selectionStart ta) @ text
                @ substring_from expression (selectionEnd ta)))"

definition handleDrop :: "textarea option \<Rightarrow> string \<Rightarrow> dataTransfer \<Rightarrow> string option" where
  "handleDrop textAreaRef expression dt =
     (let text = getData ''text/plain'' dt
      in if text \<noteq> [] then insertText textAreaRef expression text else None)"

section \<open>The analysis dialog\<close>

record astate =
  featureSet :: "jsobj option"
  targetCol :: string
  availableColumns :: "string list"
  selectedColsA :: "string list"
  colFilterA :: string
  results :: "jsobj list"

text \<open>The effect that runs when the dialog opens on a feature set.\<close>

definition openAnalysis :: "jsobj \<Rightarrow> astate \<Rightarrow> astate" where
  "openAnalysis fs st =
     st\<lparr>featureSet := Some fs,
        results := [],
        targetCol := as_string (js_or (obj_get fs ''target_column'') (JStr [])),
        selectedColsA := []\<rparr>"

text \<open>The columns a transformation record names as created.\<close>

definition created_col :: "jsobj \<Rightarrow> jsval list" where
  "created_col t =
     (if truthy (obj_get t ''new_col'') then [obj_get t ''new_col'']
      else (case obj_get t ''args'' of
              JObj a \<Rightarrow> if truthy (obj_get a ''new_col'') then [obj_get a ''new_col''] else []
            | _ \<Rightarrow> []))"

text \<open>
  \<^verbatim>\<open>fetchColumns\<close> when the preview has answered with at least one row, \<open>ks\<close> being the
  keys of its first row (\<^verbatim>\<open>cols\<close> in the source). \<^verbatim>\<open>xs.filter(c => cols.includes(c))\<close>
  keeps the strings of \<open>xs\<close> that are in \<open>ks\<close>.
\<close>

definition fetchColumns :: "string list \<Rightarrow> astate \<Rightarrow> astate" where
  "fetchColumns ks st =
     (case featureSet st of
        None \<Rightarrow> st\<lparr>availableColumns := ks\<rparr>
      | Some fs \<Rightarrow>
          (let active = obj_get fs ''active_features'';
               colsToSelect =
                 (if truthy active \<and> nonempty_list active
                  then filter (\<lambda>c. c \<in> set ks) (as_strings active)
                  else
                    (let createdCols =
                           concat (map created_col (as_objects (obj_get fs ''transformations'')));
                         validCreated = filter (\<lambda>c. c \<in> set ks) (as_strings (JArr createdCols))
                     in if validCreated \<noteq> [] then validCreated else ks));
               colsToSelect' =
                 (if truthy (obj_get fs ''target_column'')
                  then filter (\<lambda>c. JStr c \<noteq> obj_get fs ''target_column'') colsToSelect
                  else colsToSelect)
           in st\<lparr>availableColumns := ks, selectedColsA := colsToSelect'\<rparr>))"

text \<open>The target select's \<^verbatim>\<open>onChange\<close>: \<^verbatim>\<open>setTargetCol(e.target.value)\<close>.\<close>

definition setTargetCol :: "string \<Rightarrow> astate \<Rightarrow> astate" where
  "setTargetCol c st = st\<lparr>targetCol := c\<rparr>"

definition toggleCol :: "string \<Rightarrow> astate \<Rightarrow> astate" where
  "toggleCol col st = st\<lparr>selectedColsA := toggle col (selectedColsA st)\<rparr>"

text \<open>
  \<^verbatim>\<open>s.toLowerCase()\<close> on ASCII letters (the letters A to Z are mapped, every other
  character is left as it is), and \<^verbatim>\<open>s.includes(t)\<close>.
\<close>

definition lower_char :: "char \<Rightarrow> char" where
  "lower_char c =
     (let n = (of_char c :: nat) in if 65 \<le> n \<and> n \<le> 90 then char_of (n + 32) else c)"

definition toLowerCase :: "string \<Rightarrow> string" where
  "toLowerCase s = map lower_char s"

fun starts_with :: "string \<Rightarrow> string \<Rightarrow> bool" where
  "starts_with s [] = True"
| "starts_with [] (c # t) = False"
| "starts_with (d # s) (c # t) = (d = c \<and> starts_with s t)"

fun includes_str :: "string \<Rightarrow> string \<Rightarrow> bool" where
  "includes_str [] t = (t = [])"
| "includes_str (d # s) t = (starts_with (d # s) t \<or> includes_str s t)"

definition getVisibleColumns :: "astate \<Rightarrow> string list" where
  "getVisibleColumns st =
     (let visible = filter (\<lambda>c. c \<noteq> targetCol st) (availableColumns st)
      in if colFilterA st \<noteq> []
         then filter (\<lambda>c. includes_str (toLowerCase c) (toLowerCase (colFilterA st))) visible
         else visible)"

definition toggleAll :: "bool \<Rightarrow> astate \<Rightarrow> astate" where
  "toggleAll checked st =
     (if checked then st\<lparr>selectedColsA := getVisibleColumns st\<rparr>
      else st\<lparr>selectedColsA := []\<rparr>)"

text \<open>
  \<^verbatim>\<open>handleAnalyze\<close> when the analysis request succeeds, \<open>res\<close> being the records it
  returns. The Save Selection button is rendered while \<^verbatim>\<open>results\<close> is not empty.
\<close>

definition handleAnalyze :: "jsobj list \<Rightarrow> astate \<Rightarrow> astate" where
  "handleAnalyze res st =
     (if targetCol st = [] then st
      else if selectedColsA st = [] then st
      else st\<lparr>results := res\<rparr>)"

definition saveSelectionShown :: "astate \<Rightarrow> bool" where
  "saveSelectionShown st = (results st \<noteq> [])"

definition handleSaveFeatures :: "astate \<Rightarrow> request option" where
  "handleSaveFeatures st =
     (case featureSet st of
        None \<Rightarrow> None
      | Some fs \<Rightarrow>
          if selectedColsA st = [] then None
          else Some (Put (obj_get fs ''id'')
                 [(''active_features'', JArr (map JStr (selectedColsA st))),
                  (''target_column'', JStr (targetCol st))]))"

section \<open>The pipeline executor and the feature set registry\<close>

text \<open>
  Modelled from the spec: the reasons a step fails, as sections 4.2 and 7 list them (missing
  column, invalid op, invalid expression, malformed args). The executor and the registry run
  in the backend, which is not among the source files.
\<close>

datatype reason =
    MissingColumn string
  | InvalidOp string
  | InvalidExpression string
  | MalformedArgs string

text \<open>
  Modelled from the spec: the Pipeline Executor of section 4.2,
  \<^verbatim>\<open>execute(snapshot, steps) -> Materialization | Error(step_index, reason)\<close>. The steps run
  strictly in order, in one pass, each on the table the steps before it produced; the first
  failure aborts the run with the index of the step (counted from 0) and the reason. The
  handler of the Op Catalog, \<^verbatim>\<open>apply(table, args) -> table\<close> or a failure, is the parameter
  \<open>apply_op\<close>. The created-columns set, kept for highlighting only, is left out.
\<close>

fun execute_from :: "('s \<Rightarrow> 't \<Rightarrow> reason + 't) \<Rightarrow> nat \<Rightarrow> 't \<Rightarrow> 's list \<Rightarrow> nat \<times> reason + 't" where
  "execute_from apply_op i tbl [] = Inr tbl"
| "execute_from apply_op i tbl (s # rest) =
     (case apply_op s tbl of
        Inl why \<Rightarrow> Inl (i, why)
      | Inr tbl' \<Rightarrow> execute_from apply_op (Suc i) tbl' rest)"

text \<open>
  Modelled from the spec: \<^verbatim>\<open>execute(snapshot, steps)\<close>, the run from step 0 on the
  snapshot.
\<close>

definition execute :: "('s \<Rightarrow> 't \<Rightarrow> reason + 't) \<Rightarrow> 't \<Rightarrow> 's list \<Rightarrow> nat \<times> reason + 't" where
  "execute apply_op snapshot steps = execute_from apply_op 0 snapshot steps"

text \<open>
  Modelled from the spec: the FeatureSet of section 3 and the registry that owns the feature
  sets and refers to the dataset snapshots. \<open>materialization\<close> is \<open>None\<close> for a draft.
\<close>

record ('s, 't) feature_set =
  dataset_snapshot_ref :: nat
  version_tag :: string
  fs_steps :: "'s list"
  active_features :: "string list"
  target_column :: "string option"
  materialization :: "'t option"

text \<open>
  Modelled from the spec: the registry's persisted state, the snapshots by reference and the
  feature sets by id; \<open>next_id\<close> is the id the next created feature set gets.
\<close>

record ('s, 't) registry =
  snapshots :: "nat \<Rightarrow> 't option"
  feature_sets :: "nat \<Rightarrow> ('s, 't) feature_set option"
  next_id :: nat

text \<open>
  Modelled from the spec: what a registry operation returns instead of a feature set, section 7:
  a reference that does not exist, or the executor's error with step index and reason.
\<close>

datatype registry_error =
    UnknownSnapshot
  | UnknownFeatureSet
  | ExecutionError nat reason

text \<open>
  Modelled from the spec: \<^verbatim>\<open>create(dataset_snapshot_ref, steps)\<close> of section 4.5. It checks
  that the snapshot exists, runs the executor and stores feature set and materialization
  together, or neither.
\<close>

definition create_feature_set ::
  "('s \<Rightarrow> 't \<Rightarrow> reason + 't) \<Rightarrow> ('s, 't) registry \<Rightarrow> nat \<Rightarrow> 's list
   \<Rightarrow> ('s, 't) registry \<times> (registry_error + nat)" where
  "create_feature_set apply_op reg snapshot_ref steps =
     (case snapshots reg snapshot_ref of
        None \<Rightarrow> (reg, Inl UnknownSnapshot)
      | Some snapshot \<Rightarrow>
          (case execute apply_op snapshot steps of
             Inl (i, why) \<Rightarrow> (reg, Inl (ExecutionError i why))
           | Inr tbl \<Rightarrow>
               (reg\<lparr>feature_sets := (feature_sets reg)(next_id reg \<mapsto>
                       \<lparr>dataset_snapshot_ref = snapshot_ref, version_tag = [],
                        fs_steps = steps, active_features = [], target_column = None,
                        materialization = Some tbl\<rparr>),
                    next_id := Suc (next_id reg)\<rparr>,
                Inr (next_id reg))))"

text \<open>
  Modelled from the spec: \<^verbatim>\<open>update(feature_set_id, steps?, active_features?, target_column?)\<close>
  of section 4.5. With steps, the executor runs again on the original snapshot and its result
  replaces the materialization; a failed run leaves the feature set in its prior state. With
  only active features or target, the metadata change and nothing is recomputed.
\<close>

definition set_metadata ::
  "string list option \<Rightarrow> string option option \<Rightarrow> ('s, 't) feature_set \<Rightarrow> ('s, 't) feature_set" where
  "set_metadata new_active new_target fs =
     fs\<lparr>active_features := (case new_active of None \<Rightarrow> active_features fs | Some a \<Rightarrow> a),
        target_column := (case new_target of None \<Rightarrow> target_column fs | Some t \<Rightarrow> t)\<rparr>"

text \<open>
  Modelled from the spec: \<^verbatim>\<open>update\<close> of section 4.5, with \<open>set_metadata\<close> for the
  active features and the target that the request provides.
\<close>

definition update_feature_set ::
  "('s \<Rightarrow> 't \<Rightarrow> reason + 't) \<Rightarrow> ('s, 't) registry \<Rightarrow> nat \<Rightarrow> 's list option
   \<Rightarrow> string list option \<Rightarrow> string option option
   \<Rightarrow> ('s, 't) registry \<times> (registry_error + ('s, 't) feature_set)" where
  "update_feature_set apply_op reg fid new_steps new_active new_target =
     (case feature_sets reg fid of
        None \<Rightarrow> (reg, Inl UnknownFeatureSet)
      | Some fs \<Rightarrow>
          (case new_steps of
             None \<Rightarrow>
               (let fs' = set_metadata new_active new_target fs
                in (reg\<lparr>feature_sets := (feature_sets reg)(fid \<mapsto> fs')\<rparr>, Inr fs'))
           | Some steps \<Rightarrow>
               (case snapshots reg (dataset_snapshot_ref fs) of
                  None \<Rightarrow> (reg, Inl UnknownSnapshot)
                | Some snapshot \<Rightarrow>
                    (case execute apply_op snapshot steps of
                       Inl (i, why) \<Rightarrow> (reg, Inl (ExecutionError i why))
                     | Inr tbl \<Rightarrow>
                         (let fs' = set_metadata new_active new_target
                                      (fs\<lparr>fs_steps := steps, materialization := Some tbl\<rparr>)
                          in (reg\<lparr>feature_sets := (feature_sets reg)(fid \<mapsto> fs')\<rparr>,
                              Inr fs'))))))"

text \<open>
  Modelled from the spec: how \<^verbatim>\<open>update(feature_set_id, steps?, active_features?, target_column?)\<close>
  of section 4.5 reads the body of an update request. A field that the body lacks, or holds
  as \<^verbatim>\<open>null\<close>, is not provided.
\<close>

fun provided_value :: "jsval \<Rightarrow> jsval option" where
  "provided_value JUndefined = None"
| "provided_value JNull = None"
| "provided_value v = Some v"

text \<open>
  Modelled from the spec: the optional \<^verbatim>\<open>steps\<close> of an update, which a request holds in
  its field \<^verbatim>\<open>transformations\<close>.
\<close>

definition request_steps :: "jsobj \<Rightarrow> jsobj list option" where
  "request_steps body = map_option as_objects (provided_value (obj_get body ''transformations''))"

text \<open>Modelled from the spec: the optional \<^verbatim>\<open>active_features\<close> of an update.\<close>

definition request_active_features :: "jsobj \<Rightarrow> string list option" where
  "request_active_features body =
     map_option as_strings (provided_value (obj_get body ''active_features''))"

text \<open>Modelled from the spec: the optional \<^verbatim>\<open>target_column\<close> of an update.\<close>

definition request_target_column :: "jsobj \<Rightarrow> string option option" where
  "request_target_column body =
     map_option (\<lambda>v. Some (as_string v)) (provided_value (obj_get body ''target_column''))"

text \<open>
  Modelled from the spec: \<^verbatim>\<open>update\<close> of section 4.5 on the body of an update request.
\<close>

definition update_by_request ::
  "(jsobj \<Rightarrow> 't \<Rightarrow> reason + 't) \<Rightarrow> (jsobj, 't) registry \<Rightarrow> nat \<Rightarrow> jsobj
   \<Rightarrow> (jsobj, 't) registry \<times> (registry_error + (jsobj, 't) feature_set)" where
  "update_by_request apply_op reg fid body =
     update_feature_set apply_op reg fid
       (request_steps body) (request_active_features body) (request_target_column body)"

section \<open>Group aggregation with a date column\<close>

text \<open>
  Modelled from the spec: the table the Op Catalog works on (sections 3 and 6). A cell is
  missing, a number, a string or a date (a point in time, as an integer); a row gives a cell
  for each column name, a table is the list of its rows. The op runs in the backend, which is
  not among the source files.
\<close>

datatype cell = Missing | Num real | Text string | Date int

type_synonym row = "(string \<times> cell) list"

text \<open>
  Modelled from the spec: the cell of a row in a column; a column the row lacks reads as
  missing.
\<close>

definition cell_of :: "row \<Rightarrow> string \<Rightarrow> cell" where
  "cell_of r c = (case map_of r c of None \<Rightarrow> Missing | Some v \<Rightarrow> v)"

text \<open>
  Modelled from the spec: "strictly earlier" on the cells of \<^verbatim>\<open>date_col\<close>. Two dates
  compare by time, two numbers by value; a missing cell is not earlier than anything and
  nothing is earlier than it.
\<close>

fun earlier :: "cell \<Rightarrow> cell \<Rightarrow> bool" where
  "earlier (Date x) (Date y) = (x < y)"
| "earlier (Num x) (Num y) = (x < y)"
| "earlier a b = False"

text \<open>
  Modelled from the spec: the arguments of
  \<^verbatim>\<open>groupby_agg(cols, group_col, func, date_col?, threshold_min?, threshold_max?)\<close> of section
  4.1, for one column of \<^verbatim>\<open>cols\<close> (the builder sends one record per column).
  \<^verbatim>\<open>group_col\<close> is the list of the key's columns, one column for a single key.
\<close>

record groupby_args =
  agg_col :: string
  group_col :: "string list"
  date_col :: "string option"
  threshold_min :: "real option"
  threshold_max :: "real option"

text \<open>
  Modelled from the spec: the group of a row, its cells in the columns of \<^verbatim>\<open>group_col\<close>;
  two rows are in the same group when all of them agree (AND-matched).
\<close>

definition group_key :: "groupby_args \<Rightarrow> row \<Rightarrow> cell list" where
  "group_key a r = map (cell_of r) (group_col a)"

text \<open>
  Modelled from the spec: the pre-filter. A value outside
  \<^verbatim>\<open>[threshold_min, threshold_max]\<close> is treated as missing before aggregation; the row stays.
\<close>

definition within_thresholds :: "groupby_args \<Rightarrow> real \<Rightarrow> bool" where
  "within_thresholds a x =
     ((case threshold_min a of None \<Rightarrow> True | Some lo \<Rightarrow> lo \<le> x)
      \<and> (case threshold_max a of None \<Rightarrow> True | Some hi \<Rightarrow> x \<le> hi))"

text \<open>
  Modelled from the spec: the value of a cell that enters the aggregate, \<open>None\<close> when it
  is missing, not a number, or outside the thresholds.
\<close>

definition prefilter :: "groupby_args \<Rightarrow> cell \<Rightarrow> real option" where
  "prefilter a c =
     (case c of Num x \<Rightarrow> if within_thresholds a x then Some x else None | _ \<Rightarrow> None)"

text \<open>
  Modelled from the spec: the rows a row's aggregate is computed over. Without
  \<^verbatim>\<open>date_col\<close> they are the rows of the same group; with \<^verbatim>\<open>date_col\<close> they are the rows
  of the same group whose \<^verbatim>\<open>date_col\<close> is strictly earlier than the row's own.
\<close>

definition in_window :: "groupby_args \<Rightarrow> row \<Rightarrow> row \<Rightarrow> bool" where
  "in_window a r r' =
     (group_key a r' = group_key a r
      \<and> (case date_col a of
           None \<Rightarrow> True
         | Some d \<Rightarrow> earlier (cell_of r' d) (cell_of r d)))"

text \<open>
  Modelled from the spec: the rows of the table that a row's aggregate is computed over, in
  table order.
\<close>

definition window :: "groupby_args \<Rightarrow> row list \<Rightarrow> row \<Rightarrow> row list" where
  "window a rows r = filter (in_window a r) rows"

text \<open>
  Modelled from the spec: the aggregate of a row and the column of the aggregates of all
  rows. The aggregate function that \<^verbatim>\<open>func\<close> names (mean, max, min, std, count), from the
  values of the window with the missing ones marked to a cell, is the parameter \<open>agg\<close>.
\<close>

definition groupby_agg_value ::
  "(real option list \<Rightarrow> cell) \<Rightarrow> groupby_args \<Rightarrow> row list \<Rightarrow> row \<Rightarrow> cell" where
  "groupby_agg_value agg a rows r =
     agg (map (\<lambda>r'. prefilter a (cell_of r' (agg_col a))) (window a rows r))"

text \<open>
  Modelled from the spec: the new column of \<^verbatim>\<open>groupby_agg\<close>, the aggregate of each row
  in table order.
\<close>

definition groupby_agg ::
  "(real option list \<Rightarrow> cell) \<Rightarrow> groupby_args \<Rightarrow> row list \<Rightarrow> cell list" where
  "groupby_agg agg a rows = map (groupby_agg_value agg a rows) rows"

section \<open>Pruning of generated columns\<close>

text \<open>
  Modelled from the spec: the pruning of section 4.3. The variance of a generated column and
  the pairwise correlation of two are statistics the backend computes in floating point; they
  are the parameters \<open>variance\<close> and \<open>correlation\<close>. A column is dropped when its
  variance is below the threshold or exactly zero. The generator runs in the backend, which is
  not among the source files.
\<close>

definition passes_variance :: "('c \<Rightarrow> real) \<Rightarrow> real \<Rightarrow> 'c \<Rightarrow> bool" where
  "passes_variance variance variance_threshold c =
     (\<not> variance c < variance_threshold \<and> variance c \<noteq> 0)"

text \<open>
  Modelled from the spec: the kept columns are iterated in generation order, and a column
  whose absolute correlation with an already-kept column exceeds the threshold is dropped.
\<close>

definition too_correlated :: "('c \<Rightarrow> 'c \<Rightarrow> real) \<Rightarrow> real \<Rightarrow> 'c list \<Rightarrow> 'c \<Rightarrow> bool" where
  "too_correlated correlation correlation_threshold kept c =
     list_ex (\<lambda>k. correlation_threshold < \<bar>correlation k c\<bar>) kept"

text \<open>
  Modelled from the spec: the iteration in generation order; \<open>kept\<close> are the columns kept
  so far.
\<close>

fun correlation_prune :: "('c \<Rightarrow> 'c \<Rightarrow> real) \<Rightarrow> real \<Rightarrow> 'c list \<Rightarrow> 'c list \<Rightarrow> 'c list" where
  "correlation_prune correlation correlation_threshold kept [] = kept"
| "correlation_prune correlation correlation_threshold kept (c # rest) =
     (if too_correlated correlation correlation_threshold kept c
      then correlation_prune correlation correlation_threshold kept rest
      else correlation_prune correlation correlation_threshold (kept @ [c]) rest)"

text \<open>
  Modelled from the spec: pruning as a whole, the variance rule first and the correlation
  rule on the columns that pass it.
\<close>

definition prune :: "('c \<Rightarrow> real) \<Rightarrow> ('c \<Rightarrow> 'c \<Rightarrow> real) \<Rightarrow> real \<Rightarrow> real \<Rightarrow> 'c list \<Rightarrow> 'c list" where
  "prune variance correlation variance_threshold correlation_threshold generated =
     correlation_prune correlation correlation_threshold []
       (filter (passes_variance variance variance_threshold) generated)"

section \<open>Well-formed pipelines for regrouping\<close>

text \<open>
  Two steps that \<^verbatim>\<open>groupTransformations\<close> would merge: the same \<^verbatim>\<open>op\<close> and args equal
  as JSON text.
\<close>

definition adjacent_same :: "step \<Rightarrow> step \<Rightarrow> bool" where
  "adjacent_same a b = same_group a (op b) (args b)"

fun no_adjacent_same :: "step list \<Rightarrow> bool" where
  "no_adjacent_same [] = True"
| "no_adjacent_same [a] = True"
| "no_adjacent_same (a # b # rest) = (\<not> adjacent_same a b \<and> no_adjacent_same (b # rest))"

text \<open>
  A step whose args are an object with no key named \<^verbatim>\<open>op\<close> or \<^verbatim>\<open>col\<close>, the two keys
  that the flat record takes from the step itself.
\<close>

definition plain_args :: "step \<Rightarrow> bool" where
  "plain_args s = (wf_obj (args s)
                   \<and> ''op'' \<notin> set (map fst (args s)) \<and> ''col'' \<notin> set (map fst (args s)))"

text \<open>
  A step that regrouping can rebuild from its flat records: its args are plain, and its
  \<^verbatim>\<open>op\<close> is \<^verbatim>\<open>===\<close> to itself (every string, number other than \<^verbatim>\<open>NaN\<close>, boolean,
  \<^verbatim>\<open>null\<close> and \<^verbatim>\<open>undefined\<close> is) unless the step has one column only, whose record is
  compared with no other record of the step.
\<close>

definition regroupable :: "step \<Rightarrow> bool" where
  "regroupable s = (plain_args s \<and> (strict_equals (op s) (op s) \<or> length (cols s) = 1))"

text \<open>The loop state of \<^verbatim>\<open>groupTransformations\<close>, read for the proofs.\<close>

fun open_group :: "step option \<Rightarrow> step list" where
  "open_group None = []"
| "open_group (Some g) = [g]"

definition may_open :: "step option \<Rightarrow> step \<Rightarrow> bool" where
  "may_open cur s = (case cur of None \<Rightarrow> True | Some g \<Rightarrow> \<not> adjacent_same g s)"

section \<open>Example data\<close>

definition example_ids :: "nat \<Rightarrow> string" where
  "example_ids n = ''id'' @ string_of_nat n"

definition example_log_step :: step where
  "example_log_step =
     \<lparr>sid = ''s1'', op = JStr ''log'', cols = [JStr ''price'', JStr ''qty''], args = []\<rparr>"

definition example_empty_step :: step where
  "example_empty_step =
     \<lparr>sid = ''s2'', op = JStr ''filter'', cols = [],
      args = [(''conditions'',
               JArr [JObj [(''col'', JStr ''price''), (''op'', JStr ''eq''), (''val'', JStr [])]])]\<rparr>"

definition example_feature_set :: jsobj where
  "example_feature_set =
     [(''id'', JNum 7), (''name'', JStr ''fs''),
      (''dataset_version_id'', JNum 3), (''version'', JStr ''v1''),
      (''transformations'', JArr [JObj [(''op'', JStr ''log''), (''col'', JStr ''price'')],
                                  JObj [(''op'', JStr ''log''), (''col'', JStr ''qty'')]]),
      (''active_features'', JArr [JStr ''price'', JStr ''qty'']),
      (''target_column'', JNull)]"

definition example_manage_state :: wstate where
  "example_manage_state =
     \<lparr>columns = [''price'', ''qty'', ''y''],
      pipelineSteps = [example_log_step],
      newOp_op = ''log'', newOp_args = [],
      selectedCols = [],
      activeFeatureSelection = [''price'', ''qty''],
      activeTargetCol = [],
      leftSelection = [], rightSelection = [],
      currentFeatureSet = Some example_feature_set,
      selectedVersionId = ''3'',
      builderVersionTag = ''v1'',
      featuresInitialized = True\<rparr>"

definition example_lag_state :: wstate where
  "example_lag_state =
     \<lparr>columns = [''store'', ''date'', ''price'', ''qty''],
      pipelineSteps = [example_log_step],
      newOp_op = ''lag'',
      newOp_args = [(''group_col'', JStr ''store''), (''sort_col'', JStr ''date''),
                    (''max_lag'', JStr ''3'')],
      selectedCols = [''price'', ''qty''],
      activeFeatureSelection = [],
      activeTargetCol = [],
      leftSelection = [], rightSelection = [],
      currentFeatureSet = None,
      selectedVersionId = ''3'',
      builderVersionTag = [],
      featuresInitialized = False\<rparr>"

definition example_scale_state :: wstate where
  "example_scale_state = example_lag_state\<lparr>newOp_op := ''scale_standard'', newOp_args := []\<rparr>"

definition example_groupby_state :: wstate where
  "example_groupby_state =
     example_lag_state
       \<lparr>newOp_op := ''groupby_agg'',
        newOp_args := [(''group_col'', JStr ''horse''),
                       (''group_filters'', JArr [JStr ''venue'', JStr ''dist'']),
                       (''func'', JStr ''mean'')]\<rparr>"

definition example_pipeline :: "step list" where
  "example_pipeline =
     [\<lparr>sid = ''a'', op = JStr ''lag'', cols = [JStr ''price'', JStr ''qty''],
       args = [(''group_col'', JStr ''store''), (''sort_col'', JUndefined), (''periods'', JNum 1)]\<rparr>,
      \<lparr>sid = ''b'', op = JStr ''lag'', cols = [JStr ''price'', JStr ''qty''],
       args = [(''group_col'', JStr ''store''), (''sort_col'', JUndefined), (''periods'', JNum 2)]\<rparr>,
      \<lparr>sid = ''c'', op = JStr ''log'', cols = [JStr ''price''], args = []\<rparr>]"

text \<open>The state of each dialog before it is opened: the initial values of its state hooks.\<close>

definition initial_wstate :: wstate where
  "initial_wstate =
     \<lparr>columns = [], pipelineSteps = [], newOp_op = ''log'', newOp_args = [],
      selectedCols = [], activeFeatureSelection = [], activeTargetCol = [],
      leftSelection = [], rightSelection = [], currentFeatureSet = None,
      selectedVersionId = [], builderVersionTag = [], featuresInitialized = False\<rparr>"

definition initial_astate :: astate where
  "initial_astate =
     \<lparr>featureSet = None, targetCol = [], availableColumns = [], selectedColsA = [],
      colFilterA = [], results = []\<rparr>"

text \<open>A feature set for which no active features were saved yet.\<close>

definition example_fresh_feature_set :: jsobj where
  "example_fresh_feature_set =
     [(''id'', JNum 8), (''name'', JStr ''fresh''),
      (''dataset_version_id'', JNum 3), (''version'', JStr ''v1''),
      (''transformations'', JArr [JObj [(''op'', JStr ''log''), (''col'', JStr ''price'')]]),
      (''active_features'', JNull),
      (''target_column'', JNull)]"

definition example_opened :: wstate where
  "example_opened =
     loadColumns [''price'', ''qty'', ''y''] (openEdit example_ids example_feature_set initial_wstate)"

text \<open>
  A pipeline built in the dialog: the feature set is opened for editing, the user picks the op
  \<^verbatim>\<open>lag\<close>, sets its group column and the maximal lag 2, moves two columns to the selected
  ones and adds the step.
\<close>

definition example_built :: wstate where
  "example_built =
     addStep (\<lambda>n. example_ids (n + 1))
       (moveBuilderRight [''price'', ''qty'']
         (handleArgChange ''max_lag'' (JStr ''2'')
           (handleArgChange ''group_col'' (JStr ''store'')
             (selectOp ''lag'' example_opened))))"

definition example_analysis_opened :: astate where
  "example_analysis_opened =
     fetchColumns [''price'', ''qty'', ''y''] (openAnalysis example_feature_set initial_astate)"

text \<open>The records an analysis of the two features returns.\<close>

definition example_analysis_result :: "jsobj list" where
  "example_analysis_result =
     [[(''feature'', JStr ''price''), (''is_leak'', JBool True)],
      [(''feature'', JStr ''qty''), (''is_leak'', JBool False)]]"

text \<open>
  An example catalog and registry: a table is reduced to its column names, the only op is
  \<^verbatim>\<open>log\<close>, which needs its column and adds one.
\<close>

definition example_apply :: "jsobj \<Rightarrow> string list \<Rightarrow> reason + string list" where
  "example_apply t tbl =
     (if obj_get t ''op'' = JStr ''log'' then
        (case obj_get t ''col'' of
           JStr c \<Rightarrow> if c \<in> set tbl then Inr (tbl @ [c @ ''_log'']) else Inl (MissingColumn c)
         | _ \<Rightarrow> Inl (MalformedArgs ''col''))
      else Inl (InvalidOp (as_string (obj_get t ''op''))))"

definition example_registry :: "(jsobj, string list) registry" where
  "example_registry =
     \<lparr>snapshots = [3 \<mapsto> [''price'', ''qty'']],
      feature_sets = [7 \<mapsto> \<lparr>dataset_snapshot_ref = 3, version_tag = ''v1'',
                             fs_steps = [[(''op'', JStr ''log''), (''col'', JStr ''price'')]],
                             active_features = [''price''], target_column = None,
                             materialization = Some [''price'', ''qty'', ''price_log'']\<rparr>],
      next_id = 8\<rparr>"

definition example_bad_steps :: "jsobj list" where
  "example_bad_steps =
     [[(''op'', JStr ''log''), (''col'', JStr ''qty'')],
      [(''op'', JStr ''log''), (''col'', JStr ''volume'')],
      [(''op'', JStr ''log''), (''col'', JStr ''price'')]]"

text \<open>Example data for group aggregation: the mean as aggregate, rows of a group by date.\<close>

definition mean_of :: "real option list \<Rightarrow> cell" where
  "mean_of vs =
     (let xs = concat (map (\<lambda>v. case v of None \<Rightarrow> [] | Some x \<Rightarrow> [x]) vs)
      in if xs = [] then Missing else Num (sum_list xs / real (length xs)))"

definition example_groupby_args :: groupby_args where
  "example_groupby_args =
     \<lparr>agg_col = ''x'', group_col = [''g''], date_col = Some ''t'',
      threshold_min = None, threshold_max = None\<rparr>"

definition example_row :: "string \<Rightarrow> int \<Rightarrow> real \<Rightarrow> row" where
  "example_row g t x = [(''g'', Text g), (''t'', Date t), (''x'', Num x)]"

definition example_rows_before :: "row list" where
  "example_rows_before = [example_row ''a'' 1 10, example_row ''a'' 2 20]"

definition example_rows_after :: "row list" where
  "example_rows_after = [example_row ''b'' 2 5]"

definition example_future_row :: row where
  "example_future_row = example_row ''a'' 3 1000000"

text \<open>Example data for pruning: every column has variance 1, every pair correlation 1.\<close>

definition example_variance :: "string \<Rightarrow> real" where
  "example_variance c = 1"

definition example_correlation :: "string \<Rightarrow> string \<Rightarrow> real" where
  "example_correlation a b = 1"

section \<open>The states the workflow dialog reaches\<close>

text \<open>The keys that the builder's forms pass to \<^verbatim>\<open>handleArgChange\<close>, all literals.\<close>

definition arg_keys :: "string list" where
  "arg_keys = [''date_col'', ''expression'', ''func'', ''group_col'', ''group_filters'', ''lower'',
               ''max_lag'', ''new_col'', ''operand_type'', ''operator'', ''right_col'',
               ''sort_col'', ''threshold_max'', ''threshold_min'', ''upper'', ''value'']"

text \<open>
  The records of the feature set's \<^verbatim>\<open>transformations\<close> are objects: each holds every key
  once.
\<close>

definition wf_transformations :: "jsobj \<Rightarrow> bool" where
  "wf_transformations fs =
     list_all wf_obj (as_objects (js_or (obj_get fs ''transformations'') (JArr [])))"

text \<open>
  The states of the dialog: the initial one and what the handlers make of a state. The rules
  name every writer of \<^verbatim>\<open>pipelineSteps\<close> and of \<^verbatim>\<open>newOp.args\<close>; the last rule stands for
  all other handlers and effects (the op select, the transfer lists, the target select, the
  loading of datasets, versions and columns), which leave these two as they are.
\<close>

inductive reachable :: "wstate \<Rightarrow> bool" where
  r_initial: "reachable initial_wstate"
| r_create: "reachable st \<Longrightarrow> reachable (openCreate st)"
| r_edit: "reachable st \<Longrightarrow> wf_transformations fs \<Longrightarrow> reachable (openEdit ids fs st)"
| r_arg: "reachable st \<Longrightarrow> key \<in> set arg_keys \<Longrightarrow> reachable (handleArgChange key v st)"
| r_add_group_filter: "reachable st \<Longrightarrow> reachable (addGroupFilter v st)"
| r_remove_group_filter: "reachable st \<Longrightarrow> reachable (removeGroupFilter f st)"
| r_add_step: "reachable st \<Longrightarrow> reachable (addStep ids st)"
| r_add_formula: "reachable st \<Longrightarrow> reachable (addFormula ids st)"
| r_remove_step: "reachable st \<Longrightarrow> reachable (removeStep i st)"
| r_add_filter: "reachable st \<Longrightarrow> reachable (addGlobalFilter ids st)"
| r_set_condition: "reachable st \<Longrightarrow> key \<in> {''col'', ''op'', ''val''}
    \<Longrightarrow> reachable (setCondition idx key v st)"
| r_remove_condition: "reachable st \<Longrightarrow> reachable (removeCondition idx st)"
| r_other: "reachable st \<Longrightarrow> pipelineSteps st' = pipelineSteps st
    \<Longrightarrow> newOp_args st' = newOp_args st \<Longrightarrow> reachable st'"

text \<open>
  What holds of the steps and of \<^verbatim>\<open>newOp.args\<close> in each of these states: every step can be
  regrouped, and the arguments being edited have no key \<^verbatim>\<open>op\<close> or \<^verbatim>\<open>col\<close>.
\<close>

definition dialog_inv :: "wstate \<Rightarrow> bool" where
  "dialog_inv st =
     (list_all regroupable (pipelineSteps st)
      \<and> ''op'' \<notin> set (map fst (newOp_args st)) \<and> ''col'' \<notin> set (map fst (newOp_args st)))"

section \<open>Properties\<close>

subsection \<open>The formula builder's drag token\<close>

lemma getData_setData: "getData fmt (setData fmt d dt) = d"
  by (simp add: getData_def setData_def update_conv')

text \<open>
  Claim C7. Dragging a column from the list stores, under \<^verbatim>\<open>text/plain\<close>, the column name
  between two backticks, whatever the name is (white space included); dropping it on the
  formula editor replaces the selection of the expression by exactly that token, and when the
  editor is not mounted nothing is inserted.
\<close>

theorem drag_token_backticks:
  "getData ''text/plain'' (handleDragStart col dt) = [backtick] @ col @ [backtick]
   \<and> handleDrop (Some ta) expression (handleDragStart col dt)
       = Some (take (selectionStart ta) expression @ [backtick] @ col @ [backtick]
               @ drop (selectionEnd ta) expression)
   \<and> handleDrop None expression (handleDragStart col dt) = None"
  by (simp add: handleDrop_def handleDragStart_def getData_setData drag_token_def insertText_def
      substring_def substring_from_def Let_def min_def)

subsection \<open>The requests the submit handlers send\<close>

lemma handleSaveFeatures_Some:
  assumes "handleSaveFeatures a = Some r"
  shows "request_body r = [(''active_features'', JArr (map JStr (selectedColsA a))),
                           (''target_column'', JStr (targetCol a))]"
proof (cases "featureSet a")
  case None
  with assms show ?thesis by (simp add: handleSaveFeatures_def)
next
  case (Some fs)
  with assms show ?thesis
    by (cases "selectedColsA a = []") (auto simp: handleSaveFeatures_def)
qed

lemma handleSaveActiveFeatures_Some:
  assumes "handleSaveActiveFeatures w = Some r"
  shows "\<exists>fs. currentFeatureSet w = Some fs \<and>
          request_body r =
            [(''name'', obj_get fs ''name''),
             (''dataset_version_id'', obj_get fs ''dataset_version_id''),
             (''version'', obj_get fs ''version''),
             (''transformations'', JArr (map JObj (flatTransformations (pipelineSteps w)))),
             (''active_features'', JArr (map JStr (activeFeatureSelection w))),
             (''target_column'', str_or (activeTargetCol w) JNull)]"
proof (cases "currentFeatureSet w")
  case None
  with assms show ?thesis by (simp add: handleSaveActiveFeatures_def)
next
  case (Some fs)
  with assms show ?thesis
    by (auto simp: handleSaveActiveFeatures_def Let_def)
qed

lemma handleBuilderSubmit_Some:
  assumes "handleBuilderSubmit st = Some q"
  shows "obj_get (request_body q) ''transformations''
         = JArr (map JObj (flatTransformations (pipelineSteps st)))"
proof (cases "currentFeatureSet st")
  case None
  with assms show ?thesis
    by (auto simp: handleBuilderSubmit_def Let_def obj_get_def split: if_splits)
next
  case (Some fs)
  with assms show ?thesis
    by (auto simp: handleBuilderSubmit_def Let_def obj_get_def split: if_splits)
qed

lemma handleBuilderSubmit_sends:
  assumes "selectedVersionId st \<noteq> []"
  shows "\<exists>q. handleBuilderSubmit st = Some q
             \<and> obj_get (request_body q) ''transformations''
                 = JArr (map JObj (flatTransformations (pipelineSteps st)))"
proof (cases "currentFeatureSet st")
  case None
  with assms show ?thesis
    by (simp add: handleBuilderSubmit_def Let_def obj_get_def)
next
  case (Some fs)
  with assms show ?thesis
    by (simp add: handleBuilderSubmit_def Let_def obj_get_def)
qed

lemma handleSaveActiveFeatures_sends:
  assumes "currentFeatureSet st = Some fs"
  shows "\<exists>q. handleSaveActiveFeatures st = Some q
             \<and> obj_get (request_body q) ''transformations''
                 = JArr (map JObj (flatTransformations (pipelineSteps st)))"
  using assms by (simp add: handleSaveActiveFeatures_def Let_def obj_get_def)

lemma handleSaveActiveFeatures_transformations:
  assumes "handleSaveActiveFeatures st = Some q"
  shows "obj_get (request_body q) ''transformations''
         = JArr (map JObj (flatTransformations (pipelineSteps st)))"
  using handleSaveActiveFeatures_Some [OF assms] by (auto simp: obj_get_def)

subsection \<open>Flattening on submit\<close>

lemma flat_append: "flatTransformations (xs @ ys) = flatTransformations xs @ flatTransformations ys"
  by (simp add: flatTransformations_def)

lemma flat_length: "length (flatTransformations steps) = (\<Sum>s\<leftarrow>steps. length (cols s))"
  by (induction steps) (simp_all add: flatTransformations_def)

lemma flat_nth:
  assumes "i < length steps" "j < length (cols (steps ! i))"
  shows "flatTransformations steps ! ((\<Sum>s\<leftarrow>take i steps. length (cols s)) + j)
         = flat_record (steps ! i) (cols (steps ! i) ! j)"
proof -
  have split: "steps = take i steps @ (steps ! i) # drop (Suc i) steps"
    using assms(1) by (simp add: id_take_nth_drop)
  have "flatTransformations steps
        = flatTransformations (take i steps) @ map (flat_record (steps ! i)) (cols (steps ! i))
          @ flatTransformations (drop (Suc i) steps)"
    by (subst split) (simp add: flatTransformations_def)
  then show ?thesis
    using assms(2) by (simp add: nth_append flat_length)
qed

lemma flat_skip_empty:
  "cols s = [] \<Longrightarrow> flatTransformations (xs @ s # ys) = flatTransformations (xs @ ys)"
  by (simp add: flatTransformations_def)

lemma addGlobalFilter_new:
  assumes "findIndex is_filter (pipelineSteps st) = None"
  shows "addGlobalFilter ids st =
           st\<lparr>pipelineSteps :=
                \<lparr>sid = ids 0, op = JStr ''filter'', cols = [],
                 args = [(''conditions'', JArr [new_condition st])]\<rparr> # pipelineSteps st\<rparr>"
  using assms by (simp add: addGlobalFilter_def)

text \<open>
  Claim C8. \<^verbatim>\<open>handleBuilderSubmit\<close> sends a request whenever a dataset version is
  selected, \<^verbatim>\<open>handleSaveActiveFeatures\<close> whenever a feature set is open, and the
  \<^verbatim>\<open>transformations\<close> of either request are the flattening of the pipeline steps. The
  flattening yields one record for each pair of a step and a column of the step: as many
  records as the steps have columns, the record of column \<open>j\<close> of step
  \<open>i\<close> standing after all records of the steps before \<open>i\<close> and the first \<open>j\<close>
  records of step \<open>i\<close>. A step whose \<^verbatim>\<open>cols\<close> is empty yields no record. The step that
  Add Global Filter creates when the pipeline has no filter step has \<^verbatim>\<open>op\<close> filter and
  empty \<^verbatim>\<open>cols\<close>, so both submit handlers send what they would have sent without it.
\<close>

theorem flatten_one_record_per_pair:
  "(selectedVersionId st \<noteq> [] \<longrightarrow>
      (\<exists>b. handleBuilderSubmit st = Some b
           \<and> obj_get (request_body b) ''transformations''
               = JArr (map JObj (flatTransformations (pipelineSteps st)))))
   \<and> (currentFeatureSet st = Some fs \<longrightarrow>
      (\<exists>b. handleSaveActiveFeatures st = Some b
           \<and> obj_get (request_body b) ''transformations''
               = JArr (map JObj (flatTransformations (pipelineSteps st)))))
   \<and> (handleBuilderSubmit st = Some q \<longrightarrow>
      obj_get (request_body q) ''transformations''
        = JArr (map JObj (flatTransformations (pipelineSteps st))))
   \<and> (handleSaveActiveFeatures st = Some q' \<longrightarrow>
      obj_get (request_body q') ''transformations''
        = JArr (map JObj (flatTransformations (pipelineSteps st))))
   \<and> length (flatTransformations steps) = (\<Sum>s\<leftarrow>steps. length (cols s))
   \<and> (\<forall>i j. i < length steps \<longrightarrow> j < length (cols (steps ! i)) \<longrightarrow>
          flatTransformations steps ! ((\<Sum>s\<leftarrow>take i steps. length (cols s)) + j)
          = flat_record (steps ! i) (cols (steps ! i) ! j))
   \<and> (cols s = [] \<longrightarrow> flatTransformations (xs @ s # ys) = flatTransformations (xs @ ys))
   \<and> (findIndex is_filter (pipelineSteps st) = None \<longrightarrow>
        (\<exists>f. pipelineSteps (addGlobalFilter ids st) = f # pipelineSteps st
              \<and> op f = JStr ''filter'' \<and> cols f = [])
        \<and> flatTransformations (pipelineSteps (addGlobalFilter ids st))
            = flatTransformations (pipelineSteps st)
        \<and> handleBuilderSubmit (addGlobalFilter ids st) = handleBuilderSubmit st
        \<and> handleSaveActiveFeatures (addGlobalFilter ids st) = handleSaveActiveFeatures st)"
proof (intro conjI allI impI)
  assume "selectedVersionId st \<noteq> []"
  then show "\<exists>b. handleBuilderSubmit st = Some b
           \<and> obj_get (request_body b) ''transformations''
               = JArr (map JObj (flatTransformations (pipelineSteps st)))"
    by (rule handleBuilderSubmit_sends)
next
  assume "currentFeatureSet st = Some fs"
  then show "\<exists>b. handleSaveActiveFeatures st = Some b
           \<and> obj_get (request_body b) ''transformations''
               = JArr (map JObj (flatTransformations (pipelineSteps st)))"
    by (rule handleSaveActiveFeatures_sends)
next
  assume "handleBuilderSubmit st = Some q"
  then show "obj_get (request_body q) ''transformations''
        = JArr (map JObj (flatTransformations (pipelineSteps st)))"
    by (rule handleBuilderSubmit_Some)
next
  assume "handleSaveActiveFeatures st = Some q'"
  then show "obj_get (request_body q') ''transformations''
        = JArr (map JObj (flatTransformations (pipelineSteps st)))"
    by (rule handleSaveActiveFeatures_transformations)
next
  show "length (flatTransformations steps) = (\<Sum>s\<leftarrow>steps. length (cols s))"
    by (rule flat_length)
next
  fix i j assume "i < length steps" "j < length (cols (steps ! i))"
  then show "flatTransformations steps ! ((\<Sum>s\<leftarrow>take i steps. length (cols s)) + j)
          = flat_record (steps ! i) (cols (steps ! i) ! j)"
    by (rule flat_nth)
next
  assume "cols s = []"
  then show "flatTransformations (xs @ s # ys) = flatTransformations (xs @ ys)"
    by (rule flat_skip_empty)
next
  assume a: "findIndex is_filter (pipelineSteps st) = None"
  show "\<exists>f. pipelineSteps (addGlobalFilter ids st) = f # pipelineSteps st
              \<and> op f = JStr ''filter'' \<and> cols f = []"
    by (simp add: addGlobalFilter_new [OF a])
  show flat: "flatTransformations (pipelineSteps (addGlobalFilter ids st))
            = flatTransformations (pipelineSteps st)"
    by (simp add: addGlobalFilter_new [OF a] flatTransformations_def)
  show "handleBuilderSubmit (addGlobalFilter ids st) = handleBuilderSubmit st"
    using flat by (simp add: handleBuilderSubmit_def Let_def addGlobalFilter_new [OF a] split: option.split)
  show "handleSaveActiveFeatures (addGlobalFilter ids st) = handleSaveActiveFeatures st"
    using flat by (simp add: handleSaveActiveFeatures_def Let_def addGlobalFilter_new [OF a] split: option.split)
qed

theorem flatten_one_record_per_pair_witness:
  "selectedVersionId example_manage_state \<noteq> []
   \<and> currentFeatureSet example_manage_state = Some example_feature_set
   \<and> findIndex is_filter (pipelineSteps example_manage_state) = None
   \<and> handleBuilderSubmit example_manage_state
       = Some (Put (JNum 7)
           [(''name'', JStr ''fs''), (''dataset_version_id'', JNum 3), (''version'', JStr ''v1''),
            (''transformations'', JArr [JObj [(''op'', JStr ''log''), (''col'', JStr ''price'')],
                                        JObj [(''op'', JStr ''log''), (''col'', JStr ''qty'')]])])
   \<and> handleSaveActiveFeatures example_manage_state
       = Some (Put (JNum 7)
           [(''name'', JStr ''fs''), (''dataset_version_id'', JNum 3), (''version'', JStr ''v1''),
            (''transformations'', JArr [JObj [(''op'', JStr ''log''), (''col'', JStr ''price'')],
                                        JObj [(''op'', JStr ''log''), (''col'', JStr ''qty'')]]),
            (''active_features'', JArr [JStr ''price'', JStr ''qty'']),
            (''target_column'', JNull)])
   \<and> JArr (map JObj (flatTransformations (pipelineSteps example_manage_state)))
       = JArr [JObj [(''op'', JStr ''log''), (''col'', JStr ''price'')],
               JObj [(''op'', JStr ''log''), (''col'', JStr ''qty'')]]
   \<and> flatTransformations [example_log_step] ! 1 = flat_record example_log_step (JStr ''qty'')
   \<and> cols example_empty_step = []
   \<and> flatTransformations ([example_log_step] @ example_empty_step # [example_log_step])
      = flatTransformations ([example_log_step] @ [example_log_step])
   \<and> handleSaveActiveFeatures (addGlobalFilter example_ids example_manage_state)
      = handleSaveActiveFeatures example_manage_state
   \<and> handleBuilderSubmit (addGlobalFilter example_ids example_manage_state)
       = Some (Put (JNum 7)
           [(''name'', JStr ''fs''), (''dataset_version_id'', JNum 3), (''version'', JStr ''v1''),
            (''transformations'', JArr [JObj [(''op'', JStr ''log''), (''col'', JStr ''price'')],
                                        JObj [(''op'', JStr ''log''), (''col'', JStr ''qty'')]])])"
proof -
  have v: "selectedVersionId example_manage_state \<noteq> []"
    by (simp add: example_manage_state_def)
  have fs: "currentFeatureSet example_manage_state = Some example_feature_set"
    by (simp add: example_manage_state_def)
  have h: "findIndex is_filter (pipelineSteps example_manage_state) = None"
    by (simp add: example_manage_state_def example_log_step_def is_filter_def strict_equals_def)
  have c: "cols example_empty_step = []"
    by (simp add: example_empty_step_def)
  have n: "(0::nat) < length [example_log_step] \<and> (1::nat) < length (cols ([example_log_step] ! 0))"
    by (simp add: example_log_step_def)
  have b: "handleBuilderSubmit example_manage_state
       = Some (Put (JNum 7)
           [(''name'', JStr ''fs''), (''dataset_version_id'', JNum 3), (''version'', JStr ''v1''),
            (''transformations'', JArr [JObj [(''op'', JStr ''log''), (''col'', JStr ''price'')],
                                        JObj [(''op'', JStr ''log''), (''col'', JStr ''qty'')]])])"
    by code_simp
  have q: "handleSaveActiveFeatures example_manage_state
       = Some (Put (JNum 7)
           [(''name'', JStr ''fs''), (''dataset_version_id'', JNum 3), (''version'', JStr ''v1''),
            (''transformations'', JArr [JObj [(''op'', JStr ''log''), (''col'', JStr ''price'')],
                                        JObj [(''op'', JStr ''log''), (''col'', JStr ''qty'')]]),
            (''active_features'', JArr [JStr ''price'', JStr ''qty'']),
            (''target_column'', JNull)])"
    by code_simp
  note t = flatten_one_record_per_pair
    [where steps = "[example_log_step]" and s = example_empty_step and xs = "[example_log_step]"
       and ys = "[example_log_step]" and st = example_manage_state and ids = example_ids
       and fs = example_feature_set
       and q' = "Put (JNum 7)
           [(''name'', JStr ''fs''), (''dataset_version_id'', JNum 3), (''version'', JStr ''v1''),
            (''transformations'', JArr [JObj [(''op'', JStr ''log''), (''col'', JStr ''price'')],
                                        JObj [(''op'', JStr ''log''), (''col'', JStr ''qty'')]]),
            (''active_features'', JArr [JStr ''price'', JStr ''qty'']),
            (''target_column'', JNull)]"]
  from t q have f: "JArr (map JObj (flatTransformations (pipelineSteps example_manage_state)))
       = JArr [JObj [(''op'', JStr ''log''), (''col'', JStr ''price'')],
               JObj [(''op'', JStr ''log''), (''col'', JStr ''qty'')]]"
    by (simp add: obj_get_def)
  from t h have g: "handleBuilderSubmit (addGlobalFilter example_ids example_manage_state)
      = handleBuilderSubmit example_manage_state"
    by blast
  from t n have "flatTransformations [example_log_step] ! 1 = flat_record example_log_step (JStr ''qty'')"
    by (auto simp: example_log_step_def dest!: spec [where x = 0] spec [where x = 1])
  then show ?thesis
    using t v fs h c b q f g by simp
qed

subsection \<open>addStep\<close>

lemma update_fresh: "k \<notin> fst ` set al \<Longrightarrow> AList.update k v al = al @ [(k, v)]"
  by (induction al) auto

lemma fold_update_fresh:
  "distinct (map fst (b @ xs)) \<Longrightarrow> fold (\<lambda>(k, v). AList.update k v) xs b = b @ xs"
proof (induction xs arbitrary: b)
  case Nil
  then show ?case by simp
next
  case (Cons p xs)
  obtain k v where p: "p = (k, v)" by (cases p)
  from Cons.prems p have fresh: "k \<notin> fst ` set b" by auto
  from Cons.prems p have "distinct (map fst ((b @ [(k, v)]) @ xs))" by auto
  from Cons.IH [OF this] show ?case
    by (simp add: p update_fresh [OF fresh])
qed

lemma obj_spread_fresh: "distinct (map fst (b @ xs)) \<Longrightarrow> obj_spread b xs = b @ xs"
  by (simp add: obj_spread_def fold_update_fresh)

lemma obj_spread_copy: "wf_obj xs \<Longrightarrow> obj_spread [] xs = xs"
  by (simp add: obj_spread_fresh wf_obj_def)

lemma lag_loop_upto: "lag_loop ids st maxLag i acc = acc @ map (lag_step ids st) [i..maxLag]"
proof (induction ids st maxLag i acc rule: lag_loop.induct)
  case (1 ids st maxLag i newSteps)
  show ?case
  proof (cases "i \<le> maxLag")
    case True
    then have "[i..maxLag] = i # [i + 1..maxLag]" by (simp add: upto_rec1)
    with True 1 show ?thesis by (subst lag_loop.simps) simp
  next
    case False
    then show ?thesis by (subst lag_loop.simps) simp
  qed
qed

text \<open>
  Claim C10. With a column selection that is not empty (\<^verbatim>\<open>addStep\<close> returns at once on an
  empty one, and its button is disabled then): for \<^verbatim>\<open>lag\<close>, when \<^verbatim>\<open>max_lag || "1"\<close> parses
  to an integer \<open>N \<ge> 1\<close>, the pipeline grows by exactly \<open>N\<close> steps, their \<^verbatim>\<open>periods\<close>
  being \<open>1, \<dots>, N\<close> in this order, each with the whole selection as \<^verbatim>\<open>cols\<close> and the
  configured \<^verbatim>\<open>group_col\<close> and \<^verbatim>\<open>sort_col\<close>, and the selection is cleared; an absent or
  empty \<^verbatim>\<open>max_lag\<close> gives \<open>N = 1\<close>. For an op other than \<^verbatim>\<open>lag\<close>, \<^verbatim>\<open>groupby_agg\<close>
  and \<^verbatim>\<open>custom_formula\<close> the pipeline grows by exactly one step with the selection as
  \<^verbatim>\<open>cols\<close> and the configured args, and the selection is cleared.
\<close>

theorem addStep_lag_and_default:
  "(selectedCols st \<noteq> [] \<and> newOp_op st = ''lag''
      \<and> parseInt (js_or (obj_get (newOp_args st) ''max_lag'') (JStr ''1'')) = Some N \<and> 1 \<le> N \<longrightarrow>
      addStep ids st =
        st\<lparr>pipelineSteps := pipelineSteps st @
               map (\<lambda>i. \<lparr>sid = ids (nat (i - 1)), op = JStr ''lag'',
                         cols = map JStr (selectedCols st),
                         args = [(''group_col'', obj_get (newOp_args st) ''group_col''),
                                 (''sort_col'', obj_get (newOp_args st) ''sort_col''),
                                 (''periods'', JNum i)]\<rparr>) [1..N],
           selectedCols := []\<rparr>
      \<and> length [1..N] = nat N)
   \<and> (\<not> truthy (obj_get (newOp_args st) ''max_lag'') \<longrightarrow>
        parseInt (js_or (obj_get (newOp_args st) ''max_lag'') (JStr ''1'')) = Some 1)
   \<and> (selectedCols st \<noteq> [] \<and> newOp_op st \<noteq> ''lag'' \<and> newOp_op st \<noteq> ''groupby_agg''
      \<and> newOp_op st \<noteq> ''custom_formula'' \<and> wf_obj (newOp_args st) \<longrightarrow>
      addStep ids st =
        st\<lparr>pipelineSteps := pipelineSteps st @
               [\<lparr>sid = ids 0, op = JStr (newOp_op st), cols = map JStr (selectedCols st),
                 args = newOp_args st\<rparr>],
           selectedCols := []\<rparr>)"
proof (intro conjI impI)
  assume a: "selectedCols st \<noteq> [] \<and> newOp_op st = ''lag''
      \<and> parseInt (js_or (obj_get (newOp_args st) ''max_lag'') (JStr ''1'')) = Some N \<and> 1 \<le> N"
  have "lag_step ids st = (\<lambda>i. \<lparr>sid = ids (nat (i - 1)), op = JStr ''lag'',
                         cols = map JStr (selectedCols st),
                         args = [(''group_col'', obj_get (newOp_args st) ''group_col''),
                                 (''sort_col'', obj_get (newOp_args st) ''sort_col''),
                                 (''periods'', JNum i)]\<rparr>)"
    by (rule ext) (simp add: lag_step_def)
  with a show "addStep ids st =
        st\<lparr>pipelineSteps := pipelineSteps st @
               map (\<lambda>i. \<lparr>sid = ids (nat (i - 1)), op = JStr ''lag'',
                         cols = map JStr (selectedCols st),
                         args = [(''group_col'', obj_get (newOp_args st) ''group_col''),
                                 (''sort_col'', obj_get (newOp_args st) ''sort_col''),
                                 (''periods'', JNum i)]\<rparr>) [1..N],
           selectedCols := []\<rparr>"
    by (simp add: addStep_def lag_loop_upto)
  from a show "length [1..N] = nat N" by simp
next
  assume "\<not> truthy (obj_get (newOp_args st) ''max_lag'')"
  then have "js_or (obj_get (newOp_args st) ''max_lag'') (JStr ''1'') = JStr ''1''"
    by (simp add: js_or_def)
  moreover have "parseInt (JStr ''1'') = Some 1"
    by code_simp
  ultimately show "parseInt (js_or (obj_get (newOp_args st) ''max_lag'') (JStr ''1'')) = Some 1"
    by simp
next
  assume "selectedCols st \<noteq> [] \<and> newOp_op st \<noteq> ''lag'' \<and> newOp_op st \<noteq> ''groupby_agg''
      \<and> newOp_op st \<noteq> ''custom_formula'' \<and> wf_obj (newOp_args st)"
  then show "addStep ids st =
        st\<lparr>pipelineSteps := pipelineSteps st @
               [\<lparr>sid = ids 0, op = JStr (newOp_op st), cols = map JStr (selectedCols st),
                 args = newOp_args st\<rparr>],
           selectedCols := []\<rparr>"
    by (simp add: addStep_def obj_spread_copy)
qed


theorem addStep_lag_and_default_witness:
  "selectedCols example_lag_state \<noteq> [] \<and> newOp_op example_lag_state = ''lag''
   \<and> parseInt (js_or (obj_get (newOp_args example_lag_state) ''max_lag'') (JStr ''1'')) = Some 3
   \<and> (1::int) \<le> 3
   \<and> map step_content (pipelineSteps (addStep example_ids example_lag_state)) =
       [(JStr ''log'', [JStr ''price'', JStr ''qty''], []),
        (JStr ''lag'', [JStr ''price'', JStr ''qty''],
           [(''group_col'', JStr ''store''), (''sort_col'', JStr ''date''), (''periods'', JNum 1)]),
        (JStr ''lag'', [JStr ''price'', JStr ''qty''],
           [(''group_col'', JStr ''store''), (''sort_col'', JStr ''date''), (''periods'', JNum 2)]),
        (JStr ''lag'', [JStr ''price'', JStr ''qty''],
           [(''group_col'', JStr ''store''), (''sort_col'', JStr ''date''), (''periods'', JNum 3)])]
   \<and> selectedCols (addStep example_ids example_lag_state) = []
   \<and> \<not> truthy (obj_get (newOp_args example_scale_state) ''max_lag'')
   \<and> selectedCols example_scale_state \<noteq> [] \<and> newOp_op example_scale_state \<noteq> ''lag''
   \<and> newOp_op example_scale_state \<noteq> ''groupby_agg''
   \<and> newOp_op example_scale_state \<noteq> ''custom_formula'' \<and> wf_obj (newOp_args example_scale_state)
   \<and> map step_content (pipelineSteps (addStep example_ids example_scale_state)) =
       [(JStr ''log'', [JStr ''price'', JStr ''qty''], []),
        (JStr ''scale_standard'', [JStr ''price'', JStr ''qty''], [])]"
proof -
  have p: "parseInt (js_or (obj_get (newOp_args example_lag_state) ''max_lag'') (JStr ''1'')) = Some 3"
    by code_simp
  have h1: "selectedCols example_lag_state \<noteq> [] \<and> newOp_op example_lag_state = ''lag''
      \<and> parseInt (js_or (obj_get (newOp_args example_lag_state) ''max_lag'') (JStr ''1'')) = Some 3
      \<and> (1::int) \<le> 3"
    using p by (simp add: example_lag_state_def)
  have h2: "selectedCols example_scale_state \<noteq> [] \<and> newOp_op example_scale_state \<noteq> ''lag''
      \<and> newOp_op example_scale_state \<noteq> ''groupby_agg''
      \<and> newOp_op example_scale_state \<noteq> ''custom_formula'' \<and> wf_obj (newOp_args example_scale_state)"
    by (simp add: example_scale_state_def example_lag_state_def wf_obj_def)
  have h3: "\<not> truthy (obj_get (newOp_args example_scale_state) ''max_lag'')"
    by (simp add: example_scale_state_def obj_get_def)
  have u: "[1..3] = [1, 2, 3::int]"
    by code_simp
  from addStep_lag_and_default [of example_lag_state 3 example_ids] h1
  have c1: "addStep example_ids example_lag_state =
        example_lag_state\<lparr>pipelineSteps := pipelineSteps example_lag_state @
               map (\<lambda>i. \<lparr>sid = example_ids (nat (i - 1)), op = JStr ''lag'',
                         cols = map JStr (selectedCols example_lag_state),
                         args = [(''group_col'', obj_get (newOp_args example_lag_state) ''group_col''),
                                 (''sort_col'', obj_get (newOp_args example_lag_state) ''sort_col''),
                                 (''periods'', JNum i)]\<rparr>) [1..3],
           selectedCols := []\<rparr>"
    by blast
  from addStep_lag_and_default [of example_scale_state 1 example_ids] h2
  have c2: "addStep example_ids example_scale_state =
        example_scale_state\<lparr>pipelineSteps := pipelineSteps example_scale_state @
               [\<lparr>sid = example_ids 0, op = JStr (newOp_op example_scale_state),
                 cols = map JStr (selectedCols example_scale_state),
                 args = newOp_args example_scale_state\<rparr>],
           selectedCols := []\<rparr>"
    by blast
  have e1: "map step_content (pipelineSteps (addStep example_ids example_lag_state)) =
       [(JStr ''log'', [JStr ''price'', JStr ''qty''], []),
        (JStr ''lag'', [JStr ''price'', JStr ''qty''],
           [(''group_col'', JStr ''store''), (''sort_col'', JStr ''date''), (''periods'', JNum 1)]),
        (JStr ''lag'', [JStr ''price'', JStr ''qty''],
           [(''group_col'', JStr ''store''), (''sort_col'', JStr ''date''), (''periods'', JNum 2)]),
        (JStr ''lag'', [JStr ''price'', JStr ''qty''],
           [(''group_col'', JStr ''store''), (''sort_col'', JStr ''date''), (''periods'', JNum 3)])]"
    by (simp add: c1 u) (simp add: example_lag_state_def example_log_step_def step_content_def obj_get_def)
  have e2: "selectedCols (addStep example_ids example_lag_state) = []"
    by (simp add: c1)
  have e3: "map step_content (pipelineSteps (addStep example_ids example_scale_state)) =
       [(JStr ''log'', [JStr ''price'', JStr ''qty''], []),
        (JStr ''scale_standard'', [JStr ''price'', JStr ''qty''], [])]"
    by (simp add: c2)
       (simp add: example_scale_state_def example_lag_state_def example_log_step_def step_content_def)
  show ?thesis
    using h1 h2 h3 e1 e2 e3 by blast
qed

lemma obj_get_update: "obj_get (AList.update k v al) k' = (if k' = k then v else obj_get al k')"
  by (simp add: obj_get_def update_conv')

lemma wf_obj_update: "wf_obj al \<Longrightarrow> wf_obj (AList.update k v al)"
  by (simp add: wf_obj_def distinct_update)

lemma obj_spread_updates: "obj_spread b e = AList.updates (map fst e) (map snd e) b"
proof -
  have "fold (\<lambda>(k, v). AList.update k v) e b = fold (case_prod AList.update) (zip (map fst e) (map snd e)) b"
    by (simp add: zip_map_fst_snd)
  then show ?thesis
    by (simp add: obj_spread_def AList.updates_def)
qed

lemma wf_obj_spread: "wf_obj b \<Longrightarrow> wf_obj (obj_spread b e)"
  by (simp add: wf_obj_def obj_spread_updates distinct_updates)

lemma wf_obj_get: "wf_obj al \<Longrightarrow> (k, v) \<in> set al \<Longrightarrow> obj_get al k = v"
  by (simp add: wf_obj_def obj_get_def)

lemma serialized_keys_iff:
  "k \<in> set (serialized_keys al) \<longleftrightarrow> (\<exists>v. (k, v) \<in> set al \<and> stringify v \<noteq> None)"
  by (force simp: serialized_keys_def)

lemma undefined_not_serialized:
  "wf_obj al \<Longrightarrow> obj_get al k = JUndefined \<Longrightarrow> k \<notin> set (serialized_keys al)"
  by (auto simp: serialized_keys_iff dest: wf_obj_get)

lemma stringify_props_serialized:
  "stringify_props al =
     map (\<lambda>(k, v). json_quote k @ '':'' @ the (stringify v))
         (filter (\<lambda>(k, v). stringify v \<noteq> None) al)"
  by (induction al) (auto split: option.splits)

lemma obj_get_spread_key:
  assumes "wf_obj e" "k \<in> fst ` set e"
  shows "obj_get (obj_spread b e) k = obj_get e k"
  using assms
proof (induction e arbitrary: b)
  case Nil
  then show ?case by simp
next
  case (Cons p e)
  obtain k' v' where p: "p = (k', v')" by (cases p)
  have step: "obj_spread b (p # e) = obj_spread (AList.update k' v' b) e"
    by (simp add: obj_spread_def p)
  from Cons.prems p have wf: "wf_obj e" and fresh: "k' \<notin> fst ` set e"
    by (auto simp: wf_obj_def)
  show ?case
  proof (cases "k \<in> fst ` set e")
    case True
    with fresh have ne: "k \<noteq> k'" by auto
    have "obj_get (obj_spread b (p # e)) k = obj_get (obj_spread (AList.update k' v' b) e) k"
      by (simp only: step)
    also have "\<dots> = obj_get e k"
      by (rule Cons.IH [OF wf True])
    also have "\<dots> = obj_get (p # e) k"
      using ne by (simp add: p obj_get_def)
    finally show ?thesis .
  next
    case False
    with Cons.prems p have kk: "k = k'" by auto
    have "map_of (obj_spread (AList.update k' v' b) e) k' = Some v'"
      using fresh
      by (simp add: obj_spread_updates updates_conv' update_conv' map_upds_apply_nontin)
    then have "obj_get (obj_spread (AList.update k' v' b) e) k' = v'"
      by (simp add: obj_get_def)
    moreover have "obj_get (p # e) k' = v'"
      by (simp add: p obj_get_def)
    ultimately show ?thesis
      by (simp only: step kk)
  qed
qed


lemma flat_record_undefined_key:
  assumes "wf_obj (args s)" "k \<in> fst ` set (args s)" "obj_get (args s) k = JUndefined"
  shows "k \<notin> set (serialized_keys (flat_record s c))"
proof -
  have "wf_obj [(''op'', op s), (''col'', c)]"
    by (simp add: wf_obj_def)
  then have "wf_obj (flat_record s c)"
    unfolding flat_record_def by (rule wf_obj_spread)
  moreover have "obj_get (flat_record s c) k = JUndefined"
    unfolding flat_record_def using assms by (simp add: obj_get_spread_key)
  ultimately show ?thesis
    by (rule undefined_not_serialized)
qed

text \<open>
  Claim C6, as amended. Choosing two filter columns one after the other stores them in
  \<^verbatim>\<open>group_filters\<close> in the order chosen. Adding a \<^verbatim>\<open>groupby_agg\<close> step with a non-empty
  selection appends one step.
  When filter columns were chosen (\<^verbatim>\<open>group_filters\<close> a non-empty list) its \<^verbatim>\<open>group_col\<close> is
  the list of the primary group column followed by the filter columns in their order; when
  none was chosen (\<^verbatim>\<open>group_filters\<close> absent or empty) \<^verbatim>\<open>group_col\<close> is the primary column
  as configured. The key \<^verbatim>\<open>group_filters\<close> stays in the step's args, with the value
  \<^verbatim>\<open>undefined\<close>: it reads as absent and is not among the keys that JSON serialisation
  writes, neither for the args nor for any flat record built from them. Every other argument
  is kept.
\<close>

theorem addStep_groupby_composite_key:
  "(\<not> truthy (obj_get (newOp_args sta) ''group_filters'') \<and> fa \<noteq> [] \<and> fb \<noteq> [] \<and> fa \<noteq> fb \<longrightarrow>
      obj_get (newOp_args (addGroupFilter fb (addGroupFilter fa sta))) ''group_filters''
        = JArr [JStr fa, JStr fb])
   \<and> (selectedCols st \<noteq> [] \<and> newOp_op st = ''groupby_agg'' \<and> wf_obj (newOp_args st) \<longrightarrow>
     (\<exists>A. addStep ids st =
            st\<lparr>pipelineSteps := pipelineSteps st @
                   [\<lparr>sid = ids 0, op = JStr ''groupby_agg'', cols = map JStr (selectedCols st),
                     args = A\<rparr>],
               selectedCols := []\<rparr>
        \<and> (\<forall>fs. obj_get (newOp_args st) ''group_filters'' = JArr fs \<and> fs \<noteq> [] \<longrightarrow>
               obj_get A ''group_col'' = JArr (obj_get (newOp_args st) ''group_col'' # fs))
        \<and> (obj_get (newOp_args st) ''group_filters'' = JUndefined
             \<or> obj_get (newOp_args st) ''group_filters'' = JArr [] \<longrightarrow>
               obj_get A ''group_col'' = obj_get (newOp_args st) ''group_col'')
        \<and> ''group_filters'' \<in> fst ` set A
        \<and> obj_get A ''group_filters'' = JUndefined
        \<and> ''group_filters'' \<notin> set (serialized_keys A)
        \<and> (\<forall>i o' cs c. ''group_filters'' \<notin>
               set (serialized_keys (flat_record \<lparr>sid = i, op = o', cols = cs, args = A\<rparr> c)))
        \<and> (\<forall>k. k \<noteq> ''group_col'' \<and> k \<noteq> ''group_filters'' \<longrightarrow>
               obj_get A k = obj_get (newOp_args st) k)))"
proof (intro conjI impI)
  assume s: "\<not> truthy (obj_get (newOp_args sta) ''group_filters'') \<and> fa \<noteq> [] \<and> fb \<noteq> [] \<and> fa \<noteq> fb"
  then have one: "obj_get (newOp_args (addGroupFilter fa sta)) ''group_filters'' = JArr [JStr fa]"
    by (simp add: addGroupFilter_def handleArgChange_def js_or_def obj_get_update)
  from s have ne: "fb \<noteq> fa" by auto
  from s one ne show "obj_get (newOp_args (addGroupFilter fb (addGroupFilter fa sta))) ''group_filters''
        = JArr [JStr fa, JStr fb]"
    by (simp add: addGroupFilter_def [of fb] handleArgChange_def js_or_def obj_get_update)
next
  assume a: "selectedCols st \<noteq> [] \<and> newOp_op st = ''groupby_agg'' \<and> wf_obj (newOp_args st)"
  define gf where "gf = obj_get (newOp_args st) ''group_filters''"
  define final where "final =
      (if truthy gf \<and> nonempty_list gf
       then JArr (obj_get (newOp_args st) ''group_col'' # spread_elems gf)
       else obj_get (newOp_args st) ''group_col'')"
  define A where "A = AList.update ''group_filters'' JUndefined
                        (AList.update ''group_col'' final (newOp_args st))"
  from a have copy: "obj_spread [] (newOp_args st) = newOp_args st"
    by (simp add: obj_spread_copy)
  have wfA: "wf_obj A"
    unfolding A_def using a by (simp add: wf_obj_update)
  have gfA: "obj_get A ''group_filters'' = JUndefined"
    by (simp add: A_def obj_get_update)
  have gcA: "obj_get A ''group_col'' = final"
    by (simp add: A_def obj_get_update)
  have inA: "''group_filters'' \<in> fst ` set A"
    by (simp add: A_def dom_update)
  have 1: "addStep ids st =
            st\<lparr>pipelineSteps := pipelineSteps st @
                   [\<lparr>sid = ids 0, op = JStr ''groupby_agg'', cols = map JStr (selectedCols st),
                     args = A\<rparr>],
               selectedCols := []\<rparr>"
    using a by (simp add: addStep_def copy A_def final_def gf_def Let_def)
  have 2: "\<forall>fs. obj_get (newOp_args st) ''group_filters'' = JArr fs \<and> fs \<noteq> [] \<longrightarrow>
               obj_get A ''group_col'' = JArr (obj_get (newOp_args st) ''group_col'' # fs)"
    by (simp add: gcA final_def gf_def)
  have 3: "obj_get (newOp_args st) ''group_filters'' = JUndefined
             \<or> obj_get (newOp_args st) ''group_filters'' = JArr [] \<longrightarrow>
               obj_get A ''group_col'' = obj_get (newOp_args st) ''group_col''"
    by (auto simp: gcA final_def gf_def)
  have 4: "''group_filters'' \<notin> set (serialized_keys A)"
    using wfA gfA by (rule undefined_not_serialized)
  have 5: "\<forall>i o' cs c. ''group_filters'' \<notin>
               set (serialized_keys (flat_record \<lparr>sid = i, op = o', cols = cs, args = A\<rparr> c))"
    using wfA inA gfA by (simp add: flat_record_undefined_key)
  have 6: "\<forall>k. k \<noteq> ''group_col'' \<and> k \<noteq> ''group_filters'' \<longrightarrow>
               obj_get A k = obj_get (newOp_args st) k"
    by (simp add: A_def obj_get_update)
  from 1 2 3 inA gfA 4 5 6 show "\<exists>A. addStep ids st =
            st\<lparr>pipelineSteps := pipelineSteps st @
                   [\<lparr>sid = ids 0, op = JStr ''groupby_agg'', cols = map JStr (selectedCols st),
                     args = A\<rparr>],
               selectedCols := []\<rparr>
        \<and> (\<forall>fs. obj_get (newOp_args st) ''group_filters'' = JArr fs \<and> fs \<noteq> [] \<longrightarrow>
               obj_get A ''group_col'' = JArr (obj_get (newOp_args st) ''group_col'' # fs))
        \<and> (obj_get (newOp_args st) ''group_filters'' = JUndefined
             \<or> obj_get (newOp_args st) ''group_filters'' = JArr [] \<longrightarrow>
               obj_get A ''group_col'' = obj_get (newOp_args st) ''group_col'')
        \<and> ''group_filters'' \<in> fst ` set A
        \<and> obj_get A ''group_filters'' = JUndefined
        \<and> ''group_filters'' \<notin> set (serialized_keys A)
        \<and> (\<forall>i o' cs c. ''group_filters'' \<notin>
               set (serialized_keys (flat_record \<lparr>sid = i, op = o', cols = cs, args = A\<rparr> c)))
        \<and> (\<forall>k. k \<noteq> ''group_col'' \<and> k \<noteq> ''group_filters'' \<longrightarrow>
               obj_get A k = obj_get (newOp_args st) k)"
    by blast
qed

theorem addStep_groupby_composite_key_witness:
  "\<not> truthy (obj_get (newOp_args example_scale_state) ''group_filters'')
   \<and> obj_get (newOp_args (addGroupFilter ''dist'' (addGroupFilter ''venue'' example_scale_state)))
         ''group_filters''
       = JArr [JStr ''venue'', JStr ''dist'']
   \<and> selectedCols example_groupby_state \<noteq> [] \<and> newOp_op example_groupby_state = ''groupby_agg''
   \<and> wf_obj (newOp_args example_groupby_state)
   \<and> obj_get (newOp_args example_groupby_state) ''group_filters'' = JArr [JStr ''venue'', JStr ''dist'']
   \<and> obj_get (args (last (pipelineSteps (addStep example_ids example_groupby_state)))) ''group_col''
       = JArr [JStr ''horse'', JStr ''venue'', JStr ''dist'']
   \<and> ''group_filters'' \<notin>
       set (serialized_keys (args (last (pipelineSteps (addStep example_ids example_groupby_state)))))
   \<and> obj_get (args (last (pipelineSteps (addStep example_ids example_groupby_state)))) ''func''
       = JStr ''mean''"
proof -
  have h: "selectedCols example_groupby_state \<noteq> [] \<and> newOp_op example_groupby_state = ''groupby_agg''
      \<and> wf_obj (newOp_args example_groupby_state)"
    by (simp add: example_groupby_state_def example_lag_state_def wf_obj_def)
  have g: "obj_get (newOp_args example_groupby_state) ''group_filters''
           = JArr [JStr ''venue'', JStr ''dist'']"
    by (simp add: example_groupby_state_def obj_get_def)
  have c: "obj_get (newOp_args example_groupby_state) ''group_col'' = JStr ''horse''"
    by (simp add: example_groupby_state_def obj_get_def)
  have f: "obj_get (newOp_args example_groupby_state) ''func'' = JStr ''mean''"
    by (simp add: example_groupby_state_def obj_get_def)
  have u: "\<not> truthy (obj_get (newOp_args example_scale_state) ''group_filters'')"
    by (simp add: example_scale_state_def obj_get_def)
  note t = addStep_groupby_composite_key
    [where sta = example_scale_state and fa = "''venue''" and fb = "''dist''"
       and st = example_groupby_state and ids = example_ids]
  from t u have sel:
    "obj_get (newOp_args (addGroupFilter ''dist'' (addGroupFilter ''venue'' example_scale_state)))
         ''group_filters''
       = JArr [JStr ''venue'', JStr ''dist'']"
    by simp
  from t h
  obtain A where A: "addStep example_ids example_groupby_state =
            example_groupby_state\<lparr>pipelineSteps := pipelineSteps example_groupby_state @
                   [\<lparr>sid = example_ids 0, op = JStr ''groupby_agg'',
                     cols = map JStr (selectedCols example_groupby_state), args = A\<rparr>],
               selectedCols := []\<rparr>"
    and gc: "\<forall>fs. obj_get (newOp_args example_groupby_state) ''group_filters'' = JArr fs \<and> fs \<noteq> [] \<longrightarrow>
               obj_get A ''group_col'' = JArr (obj_get (newOp_args example_groupby_state) ''group_col'' # fs)"
    and ser: "''group_filters'' \<notin> set (serialized_keys A)"
    and rest: "\<forall>k. k \<noteq> ''group_col'' \<and> k \<noteq> ''group_filters'' \<longrightarrow>
               obj_get A k = obj_get (newOp_args example_groupby_state) k"
    by blast
  have l: "args (last (pipelineSteps (addStep example_ids example_groupby_state))) = A"
    by (simp add: A)
  from gc g c have "obj_get A ''group_col'' = JArr [JStr ''horse'', JStr ''venue'', JStr ''dist'']"
    by simp
  moreover from rest f have "obj_get A ''func'' = JStr ''mean''"
    by simp
  ultimately show ?thesis
    using h g ser l u sel by simp
qed

text \<open>
  The claim as stated, that the key is removed from the stored args, fails: the step that
  \<^verbatim>\<open>addStep\<close> records holds the key \<^verbatim>\<open>group_filters\<close>, between the keys it had before
  and after it in \<^verbatim>\<open>newOp.args\<close>, with the value \<^verbatim>\<open>undefined\<close>.
\<close>

theorem addStep_groupby_keeps_filters_key:
  "map fst (newOp_args example_groupby_state) = [''group_col'', ''group_filters'', ''func'']
   \<and> args (last (pipelineSteps (addStep example_ids example_groupby_state)))
       = [(''group_col'', JArr [JStr ''horse'', JStr ''venue'', JStr ''dist'']),
          (''group_filters'', JUndefined),
          (''func'', JStr ''mean'')]
   \<and> ''group_filters''
       \<in> set (map fst (args (last (pipelineSteps (addStep example_ids example_groupby_state)))))"
  by code_simp

subsection \<open>Regrouping the flat list\<close>

lemma flat_record_plain:
  assumes "plain_args s"
  shows "flat_record s c = (''op'', op s) # (''col'', c) # args s"
proof -
  from assms have "distinct (map fst ([(''op'', op s), (''col'', c)] @ args s))"
    by (auto simp: plain_args_def wf_obj_def)
  then show ?thesis
    unfolding flat_record_def by (simp add: obj_spread_fresh)
qed

lemma obj_rest_plain:
  assumes "plain_args s"
  shows "obj_rest [''op'', ''col''] (flat_record s c) = args s"
proof -
  from assms have "\<forall>p\<in>set (args s). fst p \<noteq> ''op'' \<and> fst p \<noteq> ''col''"
    by (force simp: plain_args_def)
  then have "filter (\<lambda>(k, v). k \<notin> set [''op'', ''col'']) (args s) = args s"
    by (intro filter_True) auto
  then show ?thesis
    by (simp add: flat_record_plain [OF assms] obj_rest_def)
qed

lemma obj_get_plain:
  assumes "plain_args s"
  shows "obj_get (flat_record s c) ''op'' = op s" "obj_get (flat_record s c) ''col'' = c"
  by (simp_all add: flat_record_plain [OF assms] obj_get_def)

lemma same_group_self:
  assumes "strict_equals (op s) (op s)" "op g = op s" "args g = args s"
  shows "same_group g (op s) (args s)"
  using assms by (simp add: same_group_def)

lemma group_body_match:
  assumes "plain_args s" "strict_equals (op s) (op s)" "op g = op s" "args g = args s"
  shows "group_body ids (grouped, Some g, n) (flat_record s c)
         = (grouped, Some (g\<lparr>cols := cols g @ [c]\<rparr>), n)"
  using same_group_self [OF assms(2-4)]
  by (simp add: group_body_def obj_get_plain [OF assms(1)] obj_rest_plain [OF assms(1)])

lemma group_loop_match:
  assumes "plain_args s" "strict_equals (op s) (op s)" "op g = op s" "args g = args s"
  shows "group_loop ids (grouped, Some g, n) (map (flat_record s) cs)
         = (grouped, Some (g\<lparr>cols := cols g @ cs\<rparr>), n)"
  using assms(3,4)
proof (induction cs arbitrary: g)
  case Nil
  then show ?case by simp
next
  case (Cons c cs)
  have "group_loop ids (grouped, Some g, n) (map (flat_record s) (c # cs))
        = group_loop ids (grouped, Some (g\<lparr>cols := cols g @ [c]\<rparr>), n) (map (flat_record s) cs)"
    by (simp add: group_body_match [OF assms(1,2) Cons.prems])
  also have "\<dots> = (grouped, Some (g\<lparr>cols := cols g @ [c]\<rparr>\<lparr>cols := cols (g\<lparr>cols := cols g @ [c]\<rparr>) @ cs\<rparr>), n)"
    using Cons.prems by (intro Cons.IH) simp_all
  finally show ?case by simp
qed

lemma group_body_new:
  assumes "plain_args s" "may_open cur s"
  shows "group_body ids (grouped, cur, n) (flat_record s c)
         = (grouped @ open_group cur, Some \<lparr>sid = ids n, op = op s, cols = [c], args = args s\<rparr>, Suc n)"
  using assms(2)
  by (cases cur)
     (simp_all add: group_body_def may_open_def adjacent_same_def
        obj_get_plain [OF assms(1)] obj_rest_plain [OF assms(1)])

lemma group_loop_append:
  "group_loop ids st (xs @ ys) = group_loop ids (group_loop ids st xs) ys"
  by (induction xs arbitrary: st) simp_all

lemma group_loop_step:
  assumes "regroupable s" "may_open cur s" "cols s \<noteq> []"
  shows "\<exists>g. group_loop ids (grouped, cur, n) (map (flat_record s) (cols s))
             = (grouped @ open_group cur, Some g, Suc n)
            \<and> op g = op s \<and> cols g = cols s \<and> args g = args s"
proof -
  from assms(1) have plain: "plain_args s"
    by (simp add: regroupable_def)
  from assms(3) obtain c cs where cs: "cols s = c # cs" by (cases "cols s") auto
  let ?g0 = "\<lparr>sid = ids n, op = op s, cols = [c], args = args s\<rparr>"
  have first: "group_loop ids (grouped, cur, n) (map (flat_record s) (cols s))
        = group_loop ids (grouped @ open_group cur, Some ?g0, Suc n) (map (flat_record s) cs)"
    by (simp add: cs group_body_new [OF plain assms(2)])
  show ?thesis
  proof (cases "cs = []")
    case True
    with first show ?thesis by (simp add: cs)
  next
    case False
    with assms(1) cs have self: "strict_equals (op s) (op s)"
      by (simp add: regroupable_def)
    have "group_loop ids (grouped @ open_group cur, Some ?g0, Suc n) (map (flat_record s) cs)
          = (grouped @ open_group cur, Some (?g0\<lparr>cols := cols ?g0 @ cs\<rparr>), Suc n)"
      by (rule group_loop_match [OF plain self]) simp_all
    with first show ?thesis by (simp add: cs)
  qed
qed

lemma group_flat_general:
  assumes "\<forall>s\<in>set steps. cols s \<noteq> [] \<and> regroupable s" "no_adjacent_same steps"
    "steps \<noteq> [] \<longrightarrow> may_open cur (hd steps)"
  shows "map step_content (group_finish (group_loop ids (grouped, cur, n) (flatTransformations steps)))
         = map step_content (grouped @ open_group cur) @ map step_content steps"
  using assms
proof (induction steps arbitrary: grouped cur n)
  case Nil
  show ?case
    by (cases cur) (simp_all add: flatTransformations_def group_finish_def)
next
  case (Cons s rest)
  from Cons.prems have ok: "regroupable s" "cols s \<noteq> []" "may_open cur s" by simp_all
  from group_loop_step [OF ok(1) ok(3) ok(2), of ids grouped n]
  obtain g where g: "group_loop ids (grouped, cur, n) (map (flat_record s) (cols s))
             = (grouped @ open_group cur, Some g, Suc n)"
    and same: "op g = op s" "cols g = cols s" "args g = args s" by blast
  have flat: "flatTransformations (s # rest) = map (flat_record s) (cols s) @ flatTransformations rest"
    by (simp add: flatTransformations_def)
  have next_ok: "rest \<noteq> [] \<longrightarrow> may_open (Some g) (hd rest)"
  proof
    assume "rest \<noteq> []"
    then obtain b bs where "rest = b # bs" by (cases rest) auto
    with Cons.prems(2) same show "may_open (Some g) (hd rest)"
      by (simp add: may_open_def adjacent_same_def same_group_def)
  qed
  have rest_ok: "\<forall>s\<in>set rest. cols s \<noteq> [] \<and> regroupable s" "no_adjacent_same rest"
    using Cons.prems by (simp, cases rest) simp_all
  have "map step_content (group_finish (group_loop ids (grouped, cur, n) (flatTransformations (s # rest))))
        = map step_content (group_finish (group_loop ids (grouped @ open_group cur, Some g, Suc n)
            (flatTransformations rest)))"
    by (simp add: flat group_loop_append g)
  also have "\<dots> = map step_content ((grouped @ open_group cur) @ open_group (Some g)) @ map step_content rest"
    by (rule Cons.IH [OF rest_ok next_ok])
  also have "\<dots> = map step_content (grouped @ open_group cur) @ map step_content (s # rest)"
    using same by (simp add: step_content_def)
  finally show ?case .
qed

lemma round_trip:
  assumes "\<forall>s\<in>set steps. cols s \<noteq> [] \<and> regroupable s" and "no_adjacent_same steps"
  shows "map step_content (groupTransformations ids (Some (flatTransformations steps)))
         = map step_content steps"
  using group_flat_general [OF assms, of None ids "[]" 0]
  by (simp add: groupTransformations_def may_open_def)

text \<open>The steps the handlers build can be regrouped.\<close>

lemma keys_spread: "fst ` set (obj_spread b e) = fst ` set b \<union> fst ` set e"
proof (induction e arbitrary: b)
  case Nil
  show ?case by (simp add: obj_spread_def)
next
  case (Cons p e)
  obtain k v where p: "p = (k, v)" by (cases p)
  have "obj_spread b (p # e) = obj_spread (AList.update k v b) e"
    by (simp add: obj_spread_def p)
  then have "fst ` set (obj_spread b (p # e)) = fst ` set (AList.update k v b) \<union> fst ` set e"
    by (simp add: Cons.IH)
  also have "\<dots> = ({k} \<union> fst ` set b) \<union> fst ` set e"
    by (simp only: dom_update)
  also have "\<dots> = fst ` set b \<union> fst ` set (p # e)"
    by (auto simp: p)
  finally show ?case .
qed

lemma plain_spread:
  assumes "''op'' \<notin> set (map fst a)" "''col'' \<notin> set (map fst a)"
  shows "plain_args \<lparr>sid = i, op = x, cols = cs, args = obj_spread [] a\<rparr>"
  using assms wf_obj_spread [of "[]" a]
  by (simp add: plain_args_def keys_spread wf_obj_def)

lemma plain_update:
  assumes "plain_args s" "k \<noteq> ''op''" "k \<noteq> ''col''"
  shows "plain_args (s\<lparr>args := AList.update k v (args s)\<rparr>)"
  using assms by (auto simp: plain_args_def wf_obj_update dom_update)

lemma regroupable_update:
  assumes "regroupable s" "k \<noteq> ''op''" "k \<noteq> ''col''"
  shows "regroupable (s\<lparr>args := AList.update k v (args s)\<rparr>)"
  using assms plain_update [of s k v] by (simp add: regroupable_def)

lemma regroupable_string:
  assumes "plain_args \<lparr>sid = i, op = JStr x, cols = cs, args = a\<rparr>"
  shows "regroupable \<lparr>sid = i, op = JStr x, cols = cs, args = a\<rparr>"
  using assms by (simp add: regroupable_def strict_equals_def)

lemma findIndex_less: "findIndex P xs = Some i \<Longrightarrow> i < length xs"
  by (induction xs arbitrary: i) (auto split: if_splits)

lemma list_all_update:
  assumes "list_all P xs" "i < length xs \<Longrightarrow> P x"
  shows "list_all P (xs[i := x])"
proof (cases "i < length xs")
  case True
  with assms show ?thesis
    by (auto simp: list_all_iff dest!: subsetD [OF set_update_subset_insert])
next
  case False
  with assms show ?thesis by (simp add: list_update_beyond)
qed

lemma list_all_cut:
  assumes "list_all P xs"
  shows "list_all P (take i xs @ drop (Suc i) xs)"
  using assms by (auto simp: list_all_iff dest: in_set_takeD in_set_dropD)

lemma group_body_regroupable:
  assumes "wf_obj t" "list_all regroupable (group_finish st)"
  shows "list_all regroupable (group_finish (group_body ids st t))"
proof -
  obtain grouped cur n where st: "st = (grouped, cur, n)" by (cases st)
  have new: "regroupable \<lparr>sid = ids n, op = obj_get t ''op'', cols = [obj_get t ''col''],
                          args = obj_rest [''op'', ''col''] t\<rparr>"
    using assms(1)
    by (auto simp: regroupable_def plain_args_def wf_obj_def obj_rest_def distinct_map_filter)
  show ?thesis
  proof (cases cur)
    case None
    with assms(2) new show ?thesis
      by (simp add: st group_body_def group_finish_def)
  next
    case (Some g)
    show ?thesis
    proof (cases "same_group g (obj_get t ''op'') (obj_rest [''op'', ''col''] t)")
      case True
      then have "strict_equals (op g) (op g)"
        by (auto simp: same_group_def strict_equals_def)
      with assms(2) Some have "regroupable (g\<lparr>cols := cols g @ [obj_get t ''col'']\<rparr>)"
        by (simp add: st group_finish_def regroupable_def plain_args_def)
      with assms(2) Some True show ?thesis
        by (simp add: st group_body_def group_finish_def)
    next
      case False
      with assms(2) Some new show ?thesis
        by (simp add: st group_body_def group_finish_def)
    qed
  qed
qed

lemma group_loop_regroupable:
  assumes "list_all wf_obj ts" "list_all regroupable (group_finish st)"
  shows "list_all regroupable (group_finish (group_loop ids st ts))"
  using assms
proof (induction ts arbitrary: st)
  case Nil
  then show ?case by simp
next
  case (Cons t ts)
  from Cons.prems have "list_all regroupable (group_finish (group_body ids st t))"
    by (intro group_body_regroupable) simp_all
  with Cons.prems show ?case
    by (simp add: Cons.IH)
qed

lemma groupTransformations_regroupable:
  assumes "list_all wf_obj ts"
  shows "list_all regroupable (groupTransformations ids (Some ts))"
  using group_loop_regroupable [OF assms, of "([], None, 0)" ids]
  by (simp add: groupTransformations_def group_finish_def)

lemma lag_step_regroupable: "regroupable (lag_step ids st i)"
  by (simp add: lag_step_def regroupable_def plain_args_def wf_obj_def strict_equals_def)

lemma inv_other:
  assumes "dialog_inv st" "pipelineSteps st' = pipelineSteps st" "newOp_args st' = newOp_args st"
  shows "dialog_inv st'"
  using assms by (simp add: dialog_inv_def)

lemma inv_handleArgChange:
  assumes "dialog_inv st" "key \<noteq> ''op''" "key \<noteq> ''col''"
  shows "dialog_inv (handleArgChange key v st)"
  using assms by (auto simp: dialog_inv_def handleArgChange_def dom_update keys_spread)

lemma inv_addGroupFilter:
  assumes "dialog_inv st"
  shows "dialog_inv (addGroupFilter v st)"
  using assms inv_handleArgChange [OF assms, of "''group_filters''"]
  by (simp add: addGroupFilter_def Let_def)

lemma inv_removeGroupFilter:
  assumes "dialog_inv st"
  shows "dialog_inv (removeGroupFilter f st)"
  using inv_handleArgChange [OF assms, of "''group_filters''"]
  by (simp add: removeGroupFilter_def Let_def)

lemma inv_openEdit:
  assumes "dialog_inv st" "wf_transformations fs"
  shows "dialog_inv (openEdit ids fs st)"
  using assms groupTransformations_regroupable [of "as_objects (js_or (obj_get fs ''transformations'') (JArr []))" ids]
  by (simp add: dialog_inv_def openEdit_def wf_transformations_def)

lemma inv_addStep:
  assumes "dialog_inv st"
  shows "dialog_inv (addStep ids st)"
proof -
  from assms have keys: "''op'' \<notin> set (map fst (newOp_args st))" "''col'' \<notin> set (map fst (newOp_args st))"
    and steps: "list_all regroupable (pipelineSteps st)"
    by (simp_all add: dialog_inv_def)
  have lag: "list_all regroupable (lag_loop ids st maxLag 1 [])" for maxLag
    by (simp add: lag_loop_upto list_all_iff lag_step_regroupable)
  have copy: "regroupable \<lparr>sid = ids 0, op = JStr nm, cols = map JStr (selectedCols st),
                 args = obj_spread [] (newOp_args st)\<rparr>" for nm
    by (intro regroupable_string plain_spread keys)
  have grp: "regroupable \<lparr>sid = ids 0, op = JStr nm, cols = map JStr (selectedCols st),
                 args = AList.update ''group_filters'' JUndefined
                          (AList.update ''group_col'' gc (obj_spread [] (newOp_args st)))\<rparr>" for nm gc
    using regroupable_update [OF regroupable_update [OF copy [of nm], of "''group_col''" gc],
            of "''group_filters''" JUndefined]
    by simp
  show ?thesis
    using keys steps lag copy grp
    by (simp add: dialog_inv_def addStep_def Let_def split: option.split)
qed

lemma inv_addFormula:
  assumes "dialog_inv st"
  shows "dialog_inv (addFormula ids st)"
  using assms
  by (simp add: dialog_inv_def addFormula_def regroupable_def plain_args_def wf_obj_def
        strict_equals_def)

lemma inv_removeStep:
  assumes "dialog_inv st"
  shows "dialog_inv (removeStep i st)"
  using assms by (auto simp: dialog_inv_def removeStep_def list_all_iff)

lemma filter_step_regroupable:
  assumes "list_all regroupable steps" "findIndex is_filter steps = Some fIdx"
  shows "regroupable ((steps ! fIdx)\<lparr>args := AList.update ''conditions'' v (args (steps ! fIdx))\<rparr>)"
proof -
  from assms have "regroupable (steps ! fIdx)"
    by (simp add: list_all_length findIndex_less)
  then show ?thesis
    by (rule regroupable_update) simp_all
qed

lemma inv_addGlobalFilter:
  assumes "dialog_inv st"
  shows "dialog_inv (addGlobalFilter ids st)"
proof (cases "findIndex is_filter (pipelineSteps st)")
  case None
  with assms show ?thesis
    by (simp add: dialog_inv_def addGlobalFilter_def regroupable_def plain_args_def wf_obj_def
          strict_equals_def)
next
  case (Some fIdx)
  from assms have steps: "list_all regroupable (pipelineSteps st)"
    by (simp add: dialog_inv_def)
  with Some have "regroupable (pipelineSteps st ! fIdx)"
    by (simp add: list_all_length findIndex_less)
  then have "wf_obj (args (pipelineSteps st ! fIdx))"
    by (simp add: regroupable_def plain_args_def)
  then have copy: "obj_spread [] (args (pipelineSteps st ! fIdx)) = args (pipelineSteps st ! fIdx)"
    by (rule obj_spread_copy)
  from assms Some filter_step_regroupable [OF steps Some] show ?thesis
    by (simp add: dialog_inv_def addGlobalFilter_def Let_def copy list_all_update)
qed

lemma inv_setCondition:
  assumes "dialog_inv st"
  shows "dialog_inv (setCondition idx key v st)"
proof (cases "findIndex is_filter (pipelineSteps st)")
  case None
  with assms show ?thesis
    by (simp add: setCondition_def)
next
  case (Some fIdx)
  from assms have steps: "list_all regroupable (pipelineSteps st)"
    by (simp add: dialog_inv_def)
  from assms Some filter_step_regroupable [OF steps Some] show ?thesis
    by (simp add: dialog_inv_def setCondition_def Let_def list_all_update)
qed

lemma inv_removeCondition:
  assumes "dialog_inv st"
  shows "dialog_inv (removeCondition idx st)"
proof (cases "findIndex is_filter (pipelineSteps st)")
  case None
  with assms show ?thesis
    by (simp add: removeCondition_def)
next
  case (Some fIdx)
  from assms have steps: "list_all regroupable (pipelineSteps st)"
    by (simp add: dialog_inv_def)
  from assms Some filter_step_regroupable [OF steps Some] list_all_cut [OF steps, of fIdx]
  show ?thesis
    by (simp add: dialog_inv_def removeCondition_def Let_def list_all_update)
qed

lemma reachable_inv: "reachable st \<Longrightarrow> dialog_inv st"
proof (induction rule: reachable.induct)
  case r_initial
  show ?case by (simp add: dialog_inv_def initial_wstate_def)
next
  case (r_create st)
  show ?case by (simp add: dialog_inv_def openCreate_def)
next
  case (r_edit st fs ids)
  then show ?case by (simp add: inv_openEdit)
next
  case (r_arg st key v)
  from r_arg(2) have "key \<noteq> ''op''" "key \<noteq> ''col''"
    by (auto simp: arg_keys_def)
  with r_arg(3) show ?case by (simp add: inv_handleArgChange)
next
  case (r_add_group_filter st v)
  then show ?case by (simp add: inv_addGroupFilter)
next
  case (r_remove_group_filter st f)
  then show ?case by (simp add: inv_removeGroupFilter)
next
  case (r_add_step st ids)
  then show ?case by (simp add: inv_addStep)
next
  case (r_add_formula st ids)
  then show ?case by (simp add: inv_addFormula)
next
  case (r_remove_step st i)
  then show ?case by (simp add: inv_removeStep)
next
  case (r_add_filter st ids)
  then show ?case by (simp add: inv_addGlobalFilter)
next
  case (r_set_condition st key idx v)
  then show ?case by (simp add: inv_setCondition)
next
  case (r_remove_condition st idx)
  then show ?case by (simp add: inv_removeCondition)
next
  case (r_other st st')
  then show ?case by (simp add: inv_other)
qed

text \<open>
  Claim C9. In every state the dialog reaches, the args of each pipeline step are an object
  with no key \<^verbatim>\<open>op\<close> or \<^verbatim>\<open>col\<close>, and the step's \<^verbatim>\<open>op\<close> is \<^verbatim>\<open>===\<close> to itself
  unless the step has one column. For steps of this kind that each have a non-empty
  \<^verbatim>\<open>cols\<close>, no two consecutive steps having the same \<^verbatim>\<open>op\<close> and JSON-equal args,
  \<^verbatim>\<open>groupTransformations\<close> applied to the flattened list gives back the steps' \<^verbatim>\<open>op\<close>,
  \<^verbatim>\<open>cols\<close> and args, in order; only the ids differ. So \<^verbatim>\<open>groupTransformations\<close> is a
  left inverse of the flattening on the pipeline steps of every state the dialog reaches,
  when they have non-empty \<^verbatim>\<open>cols\<close> and no two consecutive ones are the same.
\<close>

theorem group_after_flatten:
  "(reachable st \<longrightarrow> list_all regroupable (pipelineSteps st))
   \<and> ((\<forall>s\<in>set steps. cols s \<noteq> [] \<and> regroupable s) \<and> no_adjacent_same steps \<longrightarrow>
        map step_content (groupTransformations ids (Some (flatTransformations steps)))
          = map step_content steps)
   \<and> (reachable st \<and> (\<forall>s\<in>set (pipelineSteps st). cols s \<noteq> [])
        \<and> no_adjacent_same (pipelineSteps st) \<longrightarrow>
        map step_content (groupTransformations ids (Some (flatTransformations (pipelineSteps st))))
          = map step_content (pipelineSteps st))"
proof (intro conjI impI)
  assume "reachable st"
  then show "list_all regroupable (pipelineSteps st)"
    using reachable_inv [of st] by (simp add: dialog_inv_def)
next
  assume "(\<forall>s\<in>set steps. cols s \<noteq> [] \<and> regroupable s) \<and> no_adjacent_same steps"
  then show "map step_content (groupTransformations ids (Some (flatTransformations steps)))
          = map step_content steps"
    by (simp add: round_trip)
next
  assume a: "reachable st \<and> (\<forall>s\<in>set (pipelineSteps st). cols s \<noteq> [])
        \<and> no_adjacent_same (pipelineSteps st)"
  then have "list_all regroupable (pipelineSteps st)"
    using reachable_inv [of st] by (simp add: dialog_inv_def)
  with a have "\<forall>s\<in>set (pipelineSteps st). cols s \<noteq> [] \<and> regroupable s"
    by (simp add: list_all_iff)
  with a show "map step_content (groupTransformations ids (Some (flatTransformations (pipelineSteps st))))
          = map step_content (pipelineSteps st)"
    by (simp add: round_trip)
qed

theorem group_after_flatten_witness:
  "reachable example_built
   \<and> map step_content (pipelineSteps example_built)
       = [(JStr ''log'', [JStr ''price'', JStr ''qty''], []),
          (JStr ''lag'', [JStr ''price'', JStr ''qty''],
           [(''group_col'', JStr ''store''), (''sort_col'', JUndefined), (''periods'', JNum 1)]),
          (JStr ''lag'', [JStr ''price'', JStr ''qty''],
           [(''group_col'', JStr ''store''), (''sort_col'', JUndefined), (''periods'', JNum 2)])]
   \<and> list_all regroupable (pipelineSteps example_built)
   \<and> list_all (\<lambda>s. cols s \<noteq> []) (pipelineSteps example_built)
   \<and> no_adjacent_same (pipelineSteps example_built)
   \<and> map step_content
        (groupTransformations example_ids (Some (flatTransformations (pipelineSteps example_built))))
       = map step_content (pipelineSteps example_built)
   \<and> list_all (\<lambda>s. cols s \<noteq> [] \<and> regroupable s) example_pipeline
   \<and> no_adjacent_same example_pipeline
   \<and> map step_content (groupTransformations example_ids (Some (flatTransformations example_pipeline)))
       = map step_content example_pipeline"
proof -
  have "reachable (openEdit example_ids example_feature_set initial_wstate)"
    by (intro r_edit r_initial) (simp add: wf_transformations_def example_feature_set_def
          obj_get_def js_or_def wf_obj_def)
  then have "reachable example_opened"
    by (rule r_other) (simp_all add: example_opened_def loadColumns_def)
  then have "reachable (selectOp ''lag'' example_opened)"
    by (rule r_other) (simp_all add: selectOp_def)
  then have "reachable (handleArgChange ''group_col'' (JStr ''store'') (selectOp ''lag'' example_opened))"
    by (rule r_arg) (simp add: arg_keys_def)
  then have "reachable (handleArgChange ''max_lag'' (JStr ''2'')
               (handleArgChange ''group_col'' (JStr ''store'') (selectOp ''lag'' example_opened)))"
    by (rule r_arg) (simp add: arg_keys_def)
  then have "reachable (moveBuilderRight [''price'', ''qty'']
               (handleArgChange ''max_lag'' (JStr ''2'')
                 (handleArgChange ''group_col'' (JStr ''store'') (selectOp ''lag'' example_opened))))"
    by (rule r_other) (simp_all add: moveBuilderRight_def)
  then have r: "reachable example_built"
    unfolding example_built_def by (rule r_add_step)
  have c: "map step_content (pipelineSteps example_built)
       = [(JStr ''log'', [JStr ''price'', JStr ''qty''], []),
          (JStr ''lag'', [JStr ''price'', JStr ''qty''],
           [(''group_col'', JStr ''store''), (''sort_col'', JUndefined), (''periods'', JNum 1)]),
          (JStr ''lag'', [JStr ''price'', JStr ''qty''],
           [(''group_col'', JStr ''store''), (''sort_col'', JUndefined), (''periods'', JNum 2)])]"
    by code_simp
  have n: "list_all (\<lambda>s. cols s \<noteq> []) (pipelineSteps example_built)"
    by code_simp
  have a: "no_adjacent_same (pipelineSteps example_built)"
    by code_simp
  have h1: "list_all (\<lambda>s. cols s \<noteq> [] \<and> regroupable s) example_pipeline"
    by code_simp
  have h2: "no_adjacent_same example_pipeline"
    by code_simp
  note t = group_after_flatten [where st = example_built and steps = example_pipeline
                                  and ids = example_ids]
  from t r have g: "list_all regroupable (pipelineSteps example_built)"
    by blast
  from n have n': "\<forall>s\<in>set (pipelineSteps example_built). cols s \<noteq> []"
    by (simp add: list_all_iff)
  from t r n' a have b: "map step_content
        (groupTransformations example_ids (Some (flatTransformations (pipelineSteps example_built))))
       = map step_content (pipelineSteps example_built)"
    by blast
  from h1 have h1': "\<forall>s\<in>set example_pipeline. cols s \<noteq> [] \<and> regroupable s"
    by (simp add: list_all_iff)
  from t h1' h2 have e: "map step_content (groupTransformations example_ids (Some (flatTransformations example_pipeline)))
       = map step_content example_pipeline"
    by blast
  from r c g n a b h1 h2 e show ?thesis
    by blast
qed

subsection \<open>Save Selection\<close>

lemma as_objects_objects: "as_objects (JArr (map JObj xs)) = xs"
  by (induction xs) simp_all

lemma as_strings_strings: "as_strings (JArr (map JStr xs)) = xs"
  by (induction xs) simp_all

lemma metadata_request_steps:
  "request_steps [(''active_features'', x), (''target_column'', y)] = None"
  by (simp add: request_steps_def obj_get_def)

lemma metadata_request_update:
  assumes "feature_sets reg fid = Some fset"
  shows "update_by_request apply_op reg fid
           [(''active_features'', JArr (map JStr xs)), (''target_column'', JStr t)]
         = (reg\<lparr>feature_sets := (feature_sets reg)(fid \<mapsto>
                   fset\<lparr>active_features := xs, target_column := Some t\<rparr>)\<rparr>,
            Inr (fset\<lparr>active_features := xs, target_column := Some t\<rparr>))"
proof -
  have a: "request_active_features
             [(''active_features'', JArr (map JStr xs)), (''target_column'', JStr t)] = Some xs"
    by (simp add: request_active_features_def obj_get_def as_strings_strings del: as_strings.simps)
  have b: "request_target_column
             [(''active_features'', JArr (map JStr xs)), (''target_column'', JStr t)] = Some (Some t)"
    by (simp add: request_target_column_def obj_get_def)
  show ?thesis
    using assms
    by (simp add: update_by_request_def metadata_request_steps a b update_feature_set_def
          set_metadata_def Let_def)
qed

lemma workflow_request_steps:
  "request_steps [(''name'', n), (''dataset_version_id'', d), (''version'', v),
                  (''transformations'', JArr (map JObj xs)), (''active_features'', x),
                  (''target_column'', y)] = Some xs"
  by (simp add: request_steps_def obj_get_def as_objects_objects del: as_objects.simps)

text \<open>
  Claim C1, as amended. The request that Save Selection of the analysis dialog sends has
  exactly the two fields \<^verbatim>\<open>active_features\<close> and \<^verbatim>\<open>target_column\<close>. It provides no
  steps, so the registry's update of a feature set it holds is metadata-only: it runs no
  step, returns no error, and the stored feature set differs from the one before in
  \<^verbatim>\<open>active_features\<close> and \<^verbatim>\<open>target_column\<close> only; the steps and the materialization
  are the ones before. The request that Save Selection of the workflow dialog's Manage tab sends
  has the two fields and also \<^verbatim>\<open>name\<close>, \<^verbatim>\<open>dataset_version_id\<close> and \<^verbatim>\<open>version\<close>,
  copied from the feature set, and \<^verbatim>\<open>transformations\<close>, the flattening of the pipeline
  steps the dialog holds: it provides steps to the update.
\<close>

theorem save_selection_request_bodies:
  "(handleSaveFeatures a = Some r \<longrightarrow>
      request_body r = [(''active_features'', JArr (map JStr (selectedColsA a))),
                        (''target_column'', JStr (targetCol a))]
      \<and> request_steps (request_body r) = None
      \<and> (feature_sets reg fid = Some fset \<longrightarrow>
           update_by_request apply_op reg fid (request_body r)
             = (reg\<lparr>feature_sets := (feature_sets reg)(fid \<mapsto>
                      fset\<lparr>active_features := selectedColsA a,
                           target_column := Some (targetCol a)\<rparr>)\<rparr>,
                Inr (fset\<lparr>active_features := selectedColsA a,
                          target_column := Some (targetCol a)\<rparr>))
           \<and> fs_steps (the (feature_sets (fst (update_by_request apply_op reg fid (request_body r))) fid))
               = fs_steps fset
           \<and> materialization
                (the (feature_sets (fst (update_by_request apply_op reg fid (request_body r))) fid))
               = materialization fset))
   \<and> (handleSaveActiveFeatures w = Some r' \<longrightarrow>
        (\<exists>fs. currentFeatureSet w = Some fs \<and>
          request_body r' =
            [(''name'', obj_get fs ''name''),
             (''dataset_version_id'', obj_get fs ''dataset_version_id''),
             (''version'', obj_get fs ''version''),
             (''transformations'', JArr (map JObj (flatTransformations (pipelineSteps w)))),
             (''active_features'', JArr (map JStr (activeFeatureSelection w))),
             (''target_column'', str_or (activeTargetCol w) JNull)])
        \<and> request_steps (request_body r') = Some (flatTransformations (pipelineSteps w)))"
proof (intro conjI impI)
  assume h: "handleSaveFeatures a = Some r"
  show b: "request_body r = [(''active_features'', JArr (map JStr (selectedColsA a))),
                        (''target_column'', JStr (targetCol a))]"
    using h by (rule handleSaveFeatures_Some)
  show "request_steps (request_body r) = None"
    by (simp only: b metadata_request_steps)
  assume f: "feature_sets reg fid = Some fset"
  show u: "update_by_request apply_op reg fid (request_body r)
             = (reg\<lparr>feature_sets := (feature_sets reg)(fid \<mapsto>
                      fset\<lparr>active_features := selectedColsA a,
                           target_column := Some (targetCol a)\<rparr>)\<rparr>,
                Inr (fset\<lparr>active_features := selectedColsA a,
                          target_column := Some (targetCol a)\<rparr>))"
    by (simp only: b metadata_request_update [OF f])
  show "fs_steps (the (feature_sets (fst (update_by_request apply_op reg fid (request_body r))) fid))
               = fs_steps fset"
    by (simp add: u)
  show "materialization
                (the (feature_sets (fst (update_by_request apply_op reg fid (request_body r))) fid))
               = materialization fset"
    by (simp add: u)
next
  assume h: "handleSaveActiveFeatures w = Some r'"
  from handleSaveActiveFeatures_Some [OF h]
  show e: "\<exists>fs. currentFeatureSet w = Some fs \<and>
          request_body r' =
            [(''name'', obj_get fs ''name''),
             (''dataset_version_id'', obj_get fs ''dataset_version_id''),
             (''version'', obj_get fs ''version''),
             (''transformations'', JArr (map JObj (flatTransformations (pipelineSteps w)))),
             (''active_features'', JArr (map JStr (activeFeatureSelection w))),
             (''target_column'', str_or (activeTargetCol w) JNull)]" .
  then obtain fs where "request_body r' =
            [(''name'', obj_get fs ''name''),
             (''dataset_version_id'', obj_get fs ''dataset_version_id''),
             (''version'', obj_get fs ''version''),
             (''transformations'', JArr (map JObj (flatTransformations (pipelineSteps w)))),
             (''active_features'', JArr (map JStr (activeFeatureSelection w))),
             (''target_column'', str_or (activeTargetCol w) JNull)]"
    by blast
  then show "request_steps (request_body r') = Some (flatTransformations (pipelineSteps w))"
    by (simp only: workflow_request_steps)
qed

theorem save_selection_request_bodies_witness:
  "handleSaveFeatures example_analysis_opened
     = Some (Put (JNum 7) [(''active_features'', JArr [JStr ''price'', JStr ''qty'']),
                           (''target_column'', JStr [])])
   \<and> map fst (request_body (Put (JNum 7) [(''active_features'', JArr [JStr ''price'', JStr ''qty'']),
                           (''target_column'', JStr [])]))
       = [''active_features'', ''target_column'']
   \<and> feature_sets example_registry 7
       = Some \<lparr>dataset_snapshot_ref = 3, version_tag = ''v1'',
               fs_steps = [[(''op'', JStr ''log''), (''col'', JStr ''price'')]],
               active_features = [''price''], target_column = None,
               materialization = Some [''price'', ''qty'', ''price_log'']\<rparr>
   \<and> snd (update_by_request example_apply example_registry 7
             [(''active_features'', JArr [JStr ''price'', JStr ''qty'']),
              (''target_column'', JStr [])])
       = Inr \<lparr>dataset_snapshot_ref = 3, version_tag = ''v1'',
              fs_steps = [[(''op'', JStr ''log''), (''col'', JStr ''price'')]],
              active_features = [''price'', ''qty''], target_column = Some [],
              materialization = Some [''price'', ''qty'', ''price_log'']\<rparr>
   \<and> materialization (the (feature_sets (fst (update_by_request example_apply example_registry 7
             [(''active_features'', JArr [JStr ''price'', JStr ''qty'']),
              (''target_column'', JStr [])])) 7))
       = Some [''price'', ''qty'', ''price_log'']
   \<and> handleSaveActiveFeatures example_opened
     = Some (Put (JNum 7)
         [(''name'', JStr ''fs''), (''dataset_version_id'', JNum 3), (''version'', JStr ''v1''),
          (''transformations'', JArr [JObj [(''op'', JStr ''log''), (''col'', JStr ''price'')],
                                      JObj [(''op'', JStr ''log''), (''col'', JStr ''qty'')]]),
          (''active_features'', JArr [JStr ''price'', JStr ''qty'']),
          (''target_column'', JNull)])
   \<and> currentFeatureSet example_opened = Some example_feature_set
   \<and> request_steps
        [(''name'', JStr ''fs''), (''dataset_version_id'', JNum 3), (''version'', JStr ''v1''),
          (''transformations'', JArr [JObj [(''op'', JStr ''log''), (''col'', JStr ''price'')],
                                      JObj [(''op'', JStr ''log''), (''col'', JStr ''qty'')]]),
          (''active_features'', JArr [JStr ''price'', JStr ''qty'']),
          (''target_column'', JNull)]
       = Some (flatTransformations (pipelineSteps example_opened))"
proof -
  have a: "handleSaveFeatures example_analysis_opened
     = Some (Put (JNum 7) [(''active_features'', JArr [JStr ''price'', JStr ''qty'']),
                           (''target_column'', JStr [])])"
    by code_simp
  have s: "selectedColsA example_analysis_opened = [''price'', ''qty'']"
    by code_simp
  have g: "targetCol example_analysis_opened = []"
    by code_simp
  have f: "feature_sets example_registry 7
       = Some \<lparr>dataset_snapshot_ref = 3, version_tag = ''v1'',
               fs_steps = [[(''op'', JStr ''log''), (''col'', JStr ''price'')]],
               active_features = [''price''], target_column = None,
               materialization = Some [''price'', ''qty'', ''price_log'']\<rparr>"
    by (simp add: example_registry_def)
  have w: "handleSaveActiveFeatures example_opened
     = Some (Put (JNum 7)
         [(''name'', JStr ''fs''), (''dataset_version_id'', JNum 3), (''version'', JStr ''v1''),
          (''transformations'', JArr [JObj [(''op'', JStr ''log''), (''col'', JStr ''price'')],
                                      JObj [(''op'', JStr ''log''), (''col'', JStr ''qty'')]]),
          (''active_features'', JArr [JStr ''price'', JStr ''qty'']),
          (''target_column'', JNull)])"
    by code_simp
  have c: "currentFeatureSet example_opened = Some example_feature_set"
    by code_simp
  note t = save_selection_request_bodies
    [of example_analysis_opened
        "Put (JNum 7) [(''active_features'', JArr [JStr ''price'', JStr ''qty'']),
                       (''target_column'', JStr [])]"
        example_registry 7
        "\<lparr>dataset_snapshot_ref = 3, version_tag = ''v1'',
               fs_steps = [[(''op'', JStr ''log''), (''col'', JStr ''price'')]],
               active_features = [''price''], target_column = None,
               materialization = Some [''price'', ''qty'', ''price_log'']\<rparr>"
        example_apply
        example_opened
        "Put (JNum 7)
         [(''name'', JStr ''fs''), (''dataset_version_id'', JNum 3), (''version'', JStr ''v1''),
          (''transformations'', JArr [JObj [(''op'', JStr ''log''), (''col'', JStr ''price'')],
                                      JObj [(''op'', JStr ''log''), (''col'', JStr ''qty'')]]),
          (''active_features'', JArr [JStr ''price'', JStr ''qty'']),
          (''target_column'', JNull)]"]
  from t a f s g
  have u: "snd (update_by_request example_apply example_registry 7
             [(''active_features'', JArr [JStr ''price'', JStr ''qty'']),
              (''target_column'', JStr [])])
       = Inr \<lparr>dataset_snapshot_ref = 3, version_tag = ''v1'',
              fs_steps = [[(''op'', JStr ''log''), (''col'', JStr ''price'')]],
              active_features = [''price'', ''qty''], target_column = Some [],
              materialization = Some [''price'', ''qty'', ''price_log'']\<rparr>
     \<and> materialization (the (feature_sets (fst (update_by_request example_apply example_registry 7
             [(''active_features'', JArr [JStr ''price'', JStr ''qty'']),
              (''target_column'', JStr [])])) 7))
       = Some [''price'', ''qty'', ''price_log'']"
    by simp
  from t w
  have v: "request_steps
        [(''name'', JStr ''fs''), (''dataset_version_id'', JNum 3), (''version'', JStr ''v1''),
          (''transformations'', JArr [JObj [(''op'', JStr ''log''), (''col'', JStr ''price'')],
                                      JObj [(''op'', JStr ''log''), (''col'', JStr ''qty'')]]),
          (''active_features'', JArr [JStr ''price'', JStr ''qty'']),
          (''target_column'', JNull)]
       = Some (flatTransformations (pipelineSteps example_opened))"
    by simp
  from a f u w c v show ?thesis
    by simp
qed

text \<open>
  The claim as stated fails for the workflow dialog: the feature set is opened for editing, its
  one step is removed in the builder, and Save Selection sends an empty list of
  transformations where the registry holds two records.
\<close>

theorem save_selection_sends_transformations:
  "handleSaveActiveFeatures (removeStep ''id0'' example_opened)
     = Some (Put (JNum 7)
         [(''name'', JStr ''fs''), (''dataset_version_id'', JNum 3), (''version'', JStr ''v1''),
          (''transformations'', JArr []),
          (''active_features'', JArr [JStr ''price'', JStr ''qty'']),
          (''target_column'', JNull)])
   \<and> obj_get example_feature_set ''transformations''
       = JArr [JObj [(''op'', JStr ''log''), (''col'', JStr ''price'')],
               JObj [(''op'', JStr ''log''), (''col'', JStr ''qty'')]]"
  by code_simp

text \<open>
  Claim C2 at two inputs. In the analysis dialog, on a feature set whose active features are
  \<^verbatim>\<open>price\<close> and \<^verbatim>\<open>qty\<close>, the user picks \<^verbatim>\<open>price\<close> as target, runs the analysis and
  saves: the request has \<^verbatim>\<open>price\<close> both as target and among the active features. In the
  workflow dialog, on a feature set with no saved active features, all columns become active
  when the columns load; the user picks \<^verbatim>\<open>y\<close> as target and saves: the request has
  \<^verbatim>\<open>y\<close> both as target and among the active features.
\<close>

theorem target_in_saved_active_features:
  "saveSelectionShown
     (handleAnalyze example_analysis_result (setTargetCol ''price'' example_analysis_opened))
   \<and> handleSaveFeatures
       (handleAnalyze example_analysis_result (setTargetCol ''price'' example_analysis_opened))
     = Some (Put (JNum 7) [(''active_features'', JArr [JStr ''price'', JStr ''qty'']),
                           (''target_column'', JStr ''price'')])
   \<and> handleSaveActiveFeatures
        (setActiveTargetCol ''y''
          (loadColumns [''price'', ''qty'', ''y'']
            (openEdit example_ids example_fresh_feature_set initial_wstate)))
     = Some (Put (JNum 8)
         [(''name'', JStr ''fresh''), (''dataset_version_id'', JNum 3), (''version'', JStr ''v1''),
          (''transformations'', JArr [JObj [(''op'', JStr ''log''), (''col'', JStr ''price'')]]),
          (''active_features'', JArr [JStr ''price'', JStr ''qty'', JStr ''y'']),
          (''target_column'', JStr ''y'')])"
  by code_simp

subsection \<open>Execution aborts at the first failing step and commits nothing\<close>

lemma execute_from_append:
  "execute_from apply_op i tbl (xs @ ys) =
     (case execute_from apply_op i tbl xs of
        Inl e \<Rightarrow> Inl e
      | Inr tbl' \<Rightarrow> execute_from apply_op (i + length xs) tbl' ys)"
  by (induction xs arbitrary: i tbl) (auto split: sum.splits)

lemma execute_from_first_failure:
  assumes "execute_from apply_op i tbl pre = Inr tbl'" "apply_op s tbl' = Inl why"
  shows "execute_from apply_op i tbl (pre @ s # post) = Inl (i + length pre, why)"
  using assms by (simp add: execute_from_append)

lemma execute_from_failure_index:
  assumes "execute_from apply_op i tbl steps = Inl (j, why)"
  shows "i \<le> j \<and> j - i < length steps
         \<and> (\<exists>tbl'. execute_from apply_op i tbl (take (j - i) steps) = Inr tbl'
                   \<and> apply_op (steps ! (j - i)) tbl' = Inl why)"
  using assms
proof (induction steps arbitrary: i tbl)
  case Nil
  then show ?case by simp
next
  case (Cons a rest)
  show ?case
  proof (cases "apply_op a tbl")
    case (Inl w)
    with Cons.prems have "j = i" "why = w" by simp_all
    with Inl show ?thesis by simp
  next
    case (Inr t1)
    with Cons.prems have "execute_from apply_op (Suc i) t1 rest = Inl (j, why)" by simp
    from Cons.IH [OF this] obtain tbl' where
      r: "Suc i \<le> j" "j - Suc i < length rest"
         "execute_from apply_op (Suc i) t1 (take (j - Suc i) rest) = Inr tbl'"
         "apply_op (rest ! (j - Suc i)) tbl' = Inl why"
      by blast
    from r(1) have d: "j - i = Suc (j - Suc i)" by simp
    from r Inr show ?thesis
      by (simp add: d)
  qed
qed

lemma update_error_unchanged:
  assumes "snd (update_feature_set apply_op reg fid new_steps new_active new_target) = Inl e"
  shows "fst (update_feature_set apply_op reg fid new_steps new_active new_target) = reg"
proof (cases "feature_sets reg fid")
  case None
  then show ?thesis by (simp add: update_feature_set_def)
next
  case fs: (Some fs)
  show ?thesis
  proof (cases new_steps)
    case None
    with fs assms show ?thesis by (simp add: update_feature_set_def Let_def)
  next
    case st: (Some steps)
    show ?thesis
    proof (cases "snapshots reg (dataset_snapshot_ref fs)")
      case None
      with fs st show ?thesis by (simp add: update_feature_set_def)
    next
      case sn: (Some snapshot)
      show ?thesis
      proof (cases "execute apply_op snapshot steps")
        case (Inl p)
        with fs st sn show ?thesis
          by (cases p) (simp add: update_feature_set_def)
      next
        case (Inr tbl)
        with fs st sn assms show ?thesis
          by (simp add: update_feature_set_def Let_def)
      qed
    qed
  qed
qed

lemma create_error_unchanged:
  assumes "snd (create_feature_set apply_op reg ref steps) = Inl e"
  shows "fst (create_feature_set apply_op reg ref steps) = reg"
proof (cases "snapshots reg ref")
  case None
  then show ?thesis by (simp add: create_feature_set_def)
next
  case sn: (Some snapshot)
  show ?thesis
  proof (cases "execute apply_op snapshot steps")
    case (Inl p)
    with sn show ?thesis
      by (cases p) (simp add: create_feature_set_def)
  next
    case (Inr tbl)
    with sn assms show ?thesis
      by (simp add: create_feature_set_def)
  qed
qed

text \<open>
  Claim C3. When a step fails on the table that the steps before it produced, \<^verbatim>\<open>execute\<close>
  returns the error with that step's index and reason, whatever steps follow; an update of a
  feature set with these steps, and a creation with them, return that error and leave the
  registry as it was, so the previous materialization, if any, stays. Conversely every error
  of \<^verbatim>\<open>execute\<close> names a step that all earlier steps reached without failing and that
  failed with the reported reason. Whenever an update or a creation returns an error, the
  registry is unchanged.
\<close>

theorem execute_aborts_without_commit:
  "(execute apply_op snapshot pre = Inr tbl \<and> apply_op s tbl = Inl why \<longrightarrow>
      execute apply_op snapshot (pre @ s # post) = Inl (length pre, why)
      \<and> (feature_sets reg fid = Some fs
           \<and> snapshots reg (dataset_snapshot_ref fs) = Some snapshot \<longrightarrow>
          update_feature_set apply_op reg fid (Some (pre @ s # post)) new_active new_target
            = (reg, Inl (ExecutionError (length pre) why)))
      \<and> (snapshots reg ref = Some snapshot \<longrightarrow>
          create_feature_set apply_op reg ref (pre @ s # post)
            = (reg, Inl (ExecutionError (length pre) why))))
   \<and> (execute apply_op snapshot steps = Inl (j, why') \<longrightarrow>
        j < length steps
        \<and> (\<exists>tbl'. execute apply_op snapshot (take j steps) = Inr tbl'
                  \<and> apply_op (steps ! j) tbl' = Inl why'))
   \<and> (snd (update_feature_set apply_op reg fid new_steps new_active new_target) = Inl e \<longrightarrow>
        fst (update_feature_set apply_op reg fid new_steps new_active new_target) = reg)
   \<and> (snd (create_feature_set apply_op reg ref steps) = Inl e' \<longrightarrow>
        fst (create_feature_set apply_op reg ref steps) = reg)"
proof (intro conjI impI)
  assume a: "execute apply_op snapshot pre = Inr tbl \<and> apply_op s tbl = Inl why"
  then show x: "execute apply_op snapshot (pre @ s # post) = Inl (length pre, why)"
    using execute_from_first_failure [of apply_op 0 snapshot pre tbl s why post]
    by (simp add: execute_def)
  {
    assume "feature_sets reg fid = Some fs
           \<and> snapshots reg (dataset_snapshot_ref fs) = Some snapshot"
    with x show "update_feature_set apply_op reg fid (Some (pre @ s # post)) new_active new_target
            = (reg, Inl (ExecutionError (length pre) why))"
      by (simp add: update_feature_set_def)
  }
  {
    assume "snapshots reg ref = Some snapshot"
    with x show "create_feature_set apply_op reg ref (pre @ s # post)
            = (reg, Inl (ExecutionError (length pre) why))"
      by (simp add: create_feature_set_def)
  }
next
  assume "execute apply_op snapshot steps = Inl (j, why')"
  then have f: "execute_from apply_op 0 snapshot steps = Inl (j, why')"
    by (simp add: execute_def)
  from execute_from_failure_index [OF f]
  show "j < length steps" by simp
  from execute_from_failure_index [OF f]
  show "\<exists>tbl'. execute apply_op snapshot (take j steps) = Inr tbl'
                  \<and> apply_op (steps ! j) tbl' = Inl why'"
    by (simp add: execute_def)
next
  assume "snd (update_feature_set apply_op reg fid new_steps new_active new_target) = Inl e"
  then show "fst (update_feature_set apply_op reg fid new_steps new_active new_target) = reg"
    by (rule update_error_unchanged)
next
  assume "snd (create_feature_set apply_op reg ref steps) = Inl e'"
  then show "fst (create_feature_set apply_op reg ref steps) = reg"
    by (rule create_error_unchanged)
qed

theorem execute_aborts_without_commit_witness:
  "execute example_apply [''price'', ''qty''] [[(''op'', JStr ''log''), (''col'', JStr ''qty'')]]
     = Inr [''price'', ''qty'', ''qty_log'']
   \<and> example_apply [(''op'', JStr ''log''), (''col'', JStr ''volume'')] [''price'', ''qty'', ''qty_log'']
     = Inl (MissingColumn ''volume'')
   \<and> example_bad_steps = [[(''op'', JStr ''log''), (''col'', JStr ''qty'')]]
        @ [(''op'', JStr ''log''), (''col'', JStr ''volume'')]
        # [[(''op'', JStr ''log''), (''col'', JStr ''price'')]]
   \<and> execute example_apply [''price'', ''qty''] example_bad_steps = Inl (1, MissingColumn ''volume'')
   \<and> snapshots example_registry 3 = Some [''price'', ''qty'']
   \<and> update_feature_set example_apply example_registry 7 (Some example_bad_steps) None None
       = (example_registry, Inl (ExecutionError 1 (MissingColumn ''volume'')))
   \<and> map_option materialization (feature_sets example_registry 7)
       = Some (Some [''price'', ''qty'', ''price_log''])
   \<and> create_feature_set example_apply example_registry 3 example_bad_steps
       = (example_registry, Inl (ExecutionError 1 (MissingColumn ''volume'')))"
proof -
  have h1: "execute example_apply [''price'', ''qty''] [[(''op'', JStr ''log''), (''col'', JStr ''qty'')]]
     = Inr [''price'', ''qty'', ''qty_log'']"
    by (simp add: execute_def example_apply_def obj_get_def)
  have h2: "example_apply [(''op'', JStr ''log''), (''col'', JStr ''volume'')] [''price'', ''qty'', ''qty_log'']
     = Inl (MissingColumn ''volume'')"
    by (simp add: example_apply_def obj_get_def)
  have h3: "example_bad_steps = [[(''op'', JStr ''log''), (''col'', JStr ''qty'')]]
        @ [(''op'', JStr ''log''), (''col'', JStr ''volume'')]
        # [[(''op'', JStr ''log''), (''col'', JStr ''price'')]]"
    by (simp add: example_bad_steps_def)
  have h4: "snapshots example_registry 3 = Some [''price'', ''qty'']"
    by (simp add: example_registry_def)
  have h5: "feature_sets example_registry 7 =
      Some \<lparr>dataset_snapshot_ref = 3, version_tag = ''v1'',
            fs_steps = [[(''op'', JStr ''log''), (''col'', JStr ''price'')]],
            active_features = [''price''], target_column = None,
            materialization = Some [''price'', ''qty'', ''price_log'']\<rparr>"
    by (simp add: example_registry_def)
  note t = execute_aborts_without_commit
    [of example_apply "[''price'', ''qty'']" "[[(''op'', JStr ''log''), (''col'', JStr ''qty'')]]"
        "[''price'', ''qty'', ''qty_log'']" "[(''op'', JStr ''log''), (''col'', JStr ''volume'')]"
        "MissingColumn ''volume''" "[[(''op'', JStr ''log''), (''col'', JStr ''price'')]]"
        example_registry 7
        "\<lparr>dataset_snapshot_ref = 3, version_tag = ''v1'',
            fs_steps = [[(''op'', JStr ''log''), (''col'', JStr ''price'')]],
            active_features = [''price''], target_column = None,
            materialization = Some [''price'', ''qty'', ''price_log'']\<rparr>"
        None None 3]
  from t h1 h2 h3 h4 h5 show ?thesis
    by simp
qed

subsection \<open>Group aggregation looks at strictly earlier rows only\<close>

lemma earlier_asym: "earlier a b \<Longrightarrow> \<not> earlier b a"
  by (cases a; cases b) auto

lemma window_insert:
  assumes "\<not> in_window a r x"
  shows "window a (pre @ x # post) r = window a (pre @ post) r"
  using assms by (simp add: window_def)

lemma not_in_window_later:
  assumes "date_col a = Some d" "earlier (cell_of r d) (cell_of x d)"
  shows "\<not> in_window a r x"
  using assms earlier_asym [of "cell_of r d" "cell_of x d"] by (simp add: in_window_def)

lemma value_insert_later:
  assumes "date_col a = Some d" "earlier (cell_of r d) (cell_of x d)"
  shows "groupby_agg_value agg a (pre @ x # post) r = groupby_agg_value agg a (pre @ post) r"
  by (simp add: groupby_agg_value_def window_insert [OF not_in_window_later [OF assms]])

text \<open>
  Claim C4. With \<^verbatim>\<open>date_col\<close> present, the rows that enter a row's aggregate are exactly
  the rows of the table in the same group whose \<^verbatim>\<open>date_col\<close> is strictly earlier than the
  row's own, and the aggregate is the aggregate function applied to their pre-filtered values.
  So inserting a row \<open>x\<close> anywhere in the table, whatever its values, leaves unchanged the
  aggregate of every row whose \<^verbatim>\<open>date_col\<close> is earlier than that of \<open>x\<close>: this holds for
  the value computed for such a row and for its entry in the computed column, before and after
  the place of insertion.
\<close>

theorem groupby_agg_strictly_past:
  "date_col a = Some d \<longrightarrow>
     (\<forall>r'. r' \<in> set (window a rows r) \<longleftrightarrow>
            r' \<in> set rows \<and> group_key a r' = group_key a r
            \<and> earlier (cell_of r' d) (cell_of r d))
     \<and> groupby_agg_value agg a rows r
         = agg (map (\<lambda>r'. prefilter a (cell_of r' (agg_col a))) (window a rows r))
     \<and> (earlier (cell_of r d) (cell_of x d) \<longrightarrow>
          groupby_agg_value agg a (pre @ x # post) r = groupby_agg_value agg a (pre @ post) r)
     \<and> (\<forall>i. i < length pre \<and> earlier (cell_of (pre ! i) d) (cell_of x d) \<longrightarrow>
          groupby_agg agg a (pre @ x # post) ! i = groupby_agg agg a (pre @ post) ! i)
     \<and> (\<forall>i. i < length post \<and> earlier (cell_of (post ! i) d) (cell_of x d) \<longrightarrow>
          groupby_agg agg a (pre @ x # post) ! (length pre + 1 + i)
            = groupby_agg agg a (pre @ post) ! (length pre + i))"
proof (intro impI conjI allI)
  fix r'
  assume d: "date_col a = Some d"
  show "r' \<in> set (window a rows r) \<longleftrightarrow>
            r' \<in> set rows \<and> group_key a r' = group_key a r
            \<and> earlier (cell_of r' d) (cell_of r d)"
    using d by (auto simp: window_def in_window_def)
next
  show "groupby_agg_value agg a rows r
         = agg (map (\<lambda>r'. prefilter a (cell_of r' (agg_col a))) (window a rows r))"
    by (simp add: groupby_agg_value_def)
next
  assume "date_col a = Some d" "earlier (cell_of r d) (cell_of x d)"
  then show "groupby_agg_value agg a (pre @ x # post) r = groupby_agg_value agg a (pre @ post) r"
    by (rule value_insert_later)
next
  fix i
  assume d: "date_col a = Some d"
    and i: "i < length pre \<and> earlier (cell_of (pre ! i) d) (cell_of x d)"
  then have "groupby_agg_value agg a (pre @ x # post) (pre ! i)
             = groupby_agg_value agg a (pre @ post) (pre ! i)"
    by (simp add: value_insert_later)
  with i show "groupby_agg agg a (pre @ x # post) ! i = groupby_agg agg a (pre @ post) ! i"
    by (simp add: groupby_agg_def nth_append)
next
  fix i
  assume d: "date_col a = Some d"
    and i: "i < length post \<and> earlier (cell_of (post ! i) d) (cell_of x d)"
  then have "groupby_agg_value agg a (pre @ x # post) (post ! i)
             = groupby_agg_value agg a (pre @ post) (post ! i)"
    by (simp add: value_insert_later)
  with i show "groupby_agg agg a (pre @ x # post) ! (length pre + 1 + i)
            = groupby_agg agg a (pre @ post) ! (length pre + i)"
    by (simp add: groupby_agg_def nth_append)
qed

theorem groupby_agg_strictly_past_witness:
  "date_col example_groupby_args = Some ''t''
   \<and> (1::nat) < length example_rows_before
   \<and> earlier (cell_of (example_rows_before ! 1) ''t'') (cell_of example_future_row ''t'')
   \<and> groupby_agg mean_of example_groupby_args
        (example_rows_before @ example_future_row # example_rows_after) ! 1
      = groupby_agg mean_of example_groupby_args (example_rows_before @ example_rows_after) ! 1
   \<and> groupby_agg mean_of example_groupby_args (example_rows_before @ example_rows_after)
      = [Missing, Num 10, Missing]
   \<and> groupby_agg mean_of example_groupby_args
        (example_rows_before @ example_future_row # example_rows_after)
      = [Missing, Num 10, Num 15, Missing]"
proof -
  have h1: "date_col example_groupby_args = Some ''t''"
    by (simp add: example_groupby_args_def)
  have h2: "(1::nat) < length example_rows_before
     \<and> earlier (cell_of (example_rows_before ! 1) ''t'') (cell_of example_future_row ''t'')"
    by (simp add: example_rows_before_def example_future_row_def example_row_def cell_of_def)
  have e1: "groupby_agg mean_of example_groupby_args (example_rows_before @ example_rows_after)
      = [Missing, Num 10, Missing]"
    by (simp add: groupby_agg_def groupby_agg_value_def window_def in_window_def group_key_def
        example_groupby_args_def example_rows_before_def example_rows_after_def example_row_def
        cell_of_def prefilter_def within_thresholds_def mean_of_def)
  have e2: "groupby_agg mean_of example_groupby_args
        (example_rows_before @ example_future_row # example_rows_after)
      = [Missing, Num 10, Num 15, Missing]"
    by (simp add: groupby_agg_def groupby_agg_value_def window_def in_window_def group_key_def
        example_groupby_args_def example_rows_before_def example_rows_after_def
        example_future_row_def example_row_def
        cell_of_def prefilter_def within_thresholds_def mean_of_def)
  from groupby_agg_strictly_past
    [of example_groupby_args "''t''" example_rows_before "example_rows_before ! 1" mean_of
        example_future_row example_rows_before example_rows_after] h1 h2
  have "groupby_agg mean_of example_groupby_args
        (example_rows_before @ example_future_row # example_rows_after) ! 1
      = groupby_agg mean_of example_groupby_args (example_rows_before @ example_rows_after) ! 1"
    by blast
  with h1 h2 e1 e2 show ?thesis
    by blast
qed

subsection \<open>Pruning in generation order\<close>

lemma correlation_prune_append:
  "correlation_prune co ct kept (xs @ ys) = correlation_prune co ct (correlation_prune co ct kept xs) ys"
  by (induction xs arbitrary: kept) simp_all

lemma correlation_prune_extends:
  "\<exists>added. correlation_prune co ct kept cs = kept @ added \<and> set added \<subseteq> set cs"
proof (induction cs arbitrary: kept)
  case Nil
  then show ?case by simp
next
  case (Cons c cs)
  show ?case
  proof (cases "too_correlated co ct kept c")
    case True
    from Cons.IH [of kept] obtain added where
      "correlation_prune co ct kept cs = kept @ added" "set added \<subseteq> set cs" by blast
    with True show ?thesis by auto
  next
    case False
    from Cons.IH [of "kept @ [c]"] obtain added where
      a: "correlation_prune co ct (kept @ [c]) cs = (kept @ [c]) @ added" "set added \<subseteq> set cs"
      by blast
    have "correlation_prune co ct kept (c # cs) = kept @ (c # added) \<and> set (c # added) \<subseteq> set (c # cs)"
      using False a by auto
    then show ?thesis by blast
  qed
qed

lemma correlation_prune_set:
  "set (correlation_prune co ct kept cs) \<subseteq> set kept \<union> set cs"
  using correlation_prune_extends [of co ct kept cs] by auto

lemma prune_subset: "set (prune va co vt ct generated) \<subseteq> {c \<in> set generated. passes_variance va vt c}"
  using correlation_prune_set [of co ct "[]" "filter (passes_variance va vt) generated"]
  by (auto simp: prune_def)

lemma prune_snoc:
  "prune va co vt ct (generated @ [c]) =
     (if passes_variance va vt c \<and> \<not> too_correlated co ct (prune va co vt ct generated) c
      then prune va co vt ct generated @ [c]
      else prune va co vt ct generated)"
  by (simp add: prune_def correlation_prune_append)

lemma later_duplicate_dropped:
  assumes d: "distinct (xs @ a # ys @ b # zs)"
    and c: "ct < \<bar>co a b\<bar>"
    and a: "a \<in> set (prune va co vt ct (xs @ a # ys @ b # zs))"
  shows "b \<notin> set (prune va co vt ct (xs @ a # ys @ b # zs))"
proof -
  let ?f = "filter (passes_variance va vt)"
  let ?P = "correlation_prune co ct"
  define K1 where "K1 = ?P [] (?f (xs @ a # ys))"
  have whole: "prune va co vt ct (xs @ a # ys @ b # zs) = ?P (?P K1 (?f [b])) (?f zs)"
    by (simp add: prune_def K1_def correlation_prune_append [symmetric])
  have K1_sub: "set K1 \<subseteq> set (xs @ a # ys)"
    unfolding K1_def using correlation_prune_set [of co ct "[]" "?f (xs @ a # ys)"] by auto
  have a_in_K1: "a \<in> set K1"
  proof (rule ccontr)
    assume n: "a \<notin> set K1"
    have "set (?P (?P K1 (?f [b])) (?f zs)) \<subseteq> set K1 \<union> set (?f [b]) \<union> set (?f zs)"
      using correlation_prune_set [of co ct "?P K1 (?f [b])" "?f zs"]
            correlation_prune_set [of co ct K1 "?f [b]"] by blast
    with a whole have "a \<in> set K1 \<union> set (?f [b]) \<union> set (?f zs)" by auto
    with n d show False by (auto split: if_splits)
  qed
  have stay: "?P K1 (?f [b]) = K1"
  proof (cases "passes_variance va vt b")
    case True
    from a_in_K1 c have "too_correlated co ct K1 b"
      by (auto simp: too_correlated_def list_ex_iff)
    with True show ?thesis by simp
  next
    case False
    then show ?thesis by simp
  qed
  have "set (?P K1 (?f zs)) \<subseteq> set K1 \<union> set zs"
    using correlation_prune_set [of co ct K1 "?f zs"] by auto
  moreover from d K1_sub have "b \<notin> set K1" by auto
  moreover from d have "b \<notin> set zs" by auto
  moreover have "prune va co vt ct (xs @ a # ys @ b # zs) = ?P K1 (?f zs)"
    by (simp only: whole stay)
  ultimately show ?thesis
    by auto
qed

text \<open>
  Claim C5, as amended. A column that survives pruning is a generated column whose variance is
  neither below the variance threshold nor zero. Pruning follows the generation order: with
  one more column generated last, the columns before it are pruned as without it, and the last
  one is kept exactly when its variance passes and its absolute correlation with no column
  kept before it exceeds the correlation threshold. Of two distinct generated columns with
  absolute correlation exactly 1, the later one is dropped whenever the correlation threshold
  is below 1 and the earlier one is kept.
\<close>

theorem prune_rules:
  "(c \<in> set (prune va co vt ct generated) \<longrightarrow>
      c \<in> set generated \<and> \<not> va c < vt \<and> va c \<noteq> 0)
   \<and> prune va co vt ct [] = []
   \<and> prune va co vt ct (generated @ [c]) =
       (if \<not> va c < vt \<and> va c \<noteq> 0
           \<and> \<not> (\<exists>k \<in> set (prune va co vt ct generated). ct < \<bar>co k c\<bar>)
        then prune va co vt ct generated @ [c]
        else prune va co vt ct generated)
   \<and> (distinct (xs @ a # ys @ b # zs) \<and> \<bar>co a b\<bar> = 1 \<and> ct < 1
       \<and> a \<in> set (prune va co vt ct (xs @ a # ys @ b # zs)) \<longrightarrow>
        b \<notin> set (prune va co vt ct (xs @ a # ys @ b # zs)))"
proof (intro conjI impI)
  assume "c \<in> set (prune va co vt ct generated)"
  with prune_subset [of va co vt ct generated]
  have "c \<in> set generated \<and> passes_variance va vt c" by auto
  then show "c \<in> set generated" "\<not> va c < vt" "va c \<noteq> 0"
    by (simp_all add: passes_variance_def)
next
  show "prune va co vt ct [] = []"
    by (simp add: prune_def)
next
  show "prune va co vt ct (generated @ [c]) =
       (if \<not> va c < vt \<and> va c \<noteq> 0
           \<and> \<not> (\<exists>k \<in> set (prune va co vt ct generated). ct < \<bar>co k c\<bar>)
        then prune va co vt ct generated @ [c]
        else prune va co vt ct generated)"
    by (simp add: prune_snoc passes_variance_def too_correlated_def list_ex_iff)
next
  assume h: "distinct (xs @ a # ys @ b # zs) \<and> \<bar>co a b\<bar> = 1 \<and> ct < 1
       \<and> a \<in> set (prune va co vt ct (xs @ a # ys @ b # zs))"
  then have "ct < \<bar>co a b\<bar>" by simp
  with h show "b \<notin> set (prune va co vt ct (xs @ a # ys @ b # zs))"
    using later_duplicate_dropped [of xs a ys b zs ct co va vt] by blast
qed

theorem prune_rules_witness:
  "distinct ([] @ ''a'' # [] @ ''b'' # [])
   \<and> \<bar>example_correlation ''a'' ''b''\<bar> = 1 \<and> (95 / 100 :: real) < 1
   \<and> ''a'' \<in> set (prune example_variance example_correlation 0 (95 / 100) ([] @ ''a'' # [] @ ''b'' # []))
   \<and> ''b'' \<notin> set (prune example_variance example_correlation 0 (95 / 100) ([] @ ''a'' # [] @ ''b'' # []))
   \<and> prune example_variance example_correlation 0 (95 / 100) [''a'', ''b''] = [''a'']"
proof -
  have e: "prune example_variance example_correlation 0 (95 / 100) [''a'', ''b''] = [''a'']"
    by (simp add: prune_def passes_variance_def too_correlated_def example_variance_def
        example_correlation_def)
  have h: "distinct ([] @ ''a'' # [] @ ''b'' # [])
     \<and> \<bar>example_correlation ''a'' ''b''\<bar> = 1 \<and> (95 / 100 :: real) < 1
     \<and> ''a'' \<in> set (prune example_variance example_correlation 0 (95 / 100) ([] @ ''a'' # [] @ ''b'' # []))"
    using e by (simp add: example_correlation_def)
  from prune_rules [of _ example_variance example_correlation 0 "95 / 100" _ "[]" "''a''" "[]" "''b''" "[]"] h
  have "''b'' \<notin> set (prune example_variance example_correlation 0 (95 / 100) ([] @ ''a'' # [] @ ''b'' # []))"
    by blast
  with h e show ?thesis
    by blast
qed

text \<open>
  The claim as stated, for every threshold, fails: with correlation threshold 1 a correlation
  of exactly 1 does not exceed it, and both columns are kept.
\<close>

theorem prune_threshold_one_keeps_both:
  "example_correlation ''a'' ''b'' = 1
   \<and> prune example_variance example_correlation 0 1 [''a'', ''b''] = [''a'', ''b'']"
  by (simp add: prune_def passes_variance_def too_correlated_def example_variance_def
      example_correlation_def)

end
